theory Spec2Isabelle
  imports Main "HOL-Library.AList"
begin

section \<open>Python strings\<close>

text \<open>
  A Python string is the list of the bytes of its UTF-8 encoding, so every string the
  program can meet has a value here. Lengths and indices then count bytes; the program
  uses them only to ask whether anything stands before or after a dot and to cut a name at
  a dot, which comes to the same in bytes and in characters.
\<close>

definition lower_char :: "char \<Rightarrow> char" where
  "lower_char c =
     (case map_of (zip ''ABCDEFGHIJKLMNOPQRSTUVWXYZ'' ''abcdefghijklmnopqrstuvwxyz'') c of
        Some l \<Rightarrow> l
      | None \<Rightarrow> c)"

definition upper_char :: "char \<Rightarrow> char" where
  "upper_char c =
     (case map_of (zip ''abcdefghijklmnopqrstuvwxyz'' ''ABCDEFGHIJKLMNOPQRSTUVWXYZ'') c of
        Some u \<Rightarrow> u
      | None \<Rightarrow> c)"

text \<open>
  \<open>str.lower\<close>. The capital ASCII letters go to their small letters, and so does the one
  character outside ASCII whose lowercase is an ASCII letter: U+212A KELVIN SIGN, the
  bytes E2 84 AA, goes to \<open>k\<close>. The lowercase of every other character outside ASCII
  contains a character outside ASCII; such a character is kept as it is, which leaves
  unchanged which ASCII strings the result can be equal to.
\<close>

fun lower :: "string \<Rightarrow> string" where
  "lower (c1 # c2 # c3 # cs) =
     (if c1 = CHR 0xE2 \<and> c2 = CHR 0x84 \<and> c3 = CHR 0xAA then CHR ''k'' # lower cs
      else lower_char c1 # lower (c2 # c3 # cs))"
| "lower (c # cs) = lower_char c # lower cs"
| "lower [] = []"

text \<open>\<open>str.capitalize\<close>, which the program applies to the category names only.\<close>

definition capitalize :: "string \<Rightarrow> string" where
  "capitalize s = (case s of [] \<Rightarrow> [] | c # cs \<Rightarrow> upper_char c # lower cs)"

text \<open>\<open>s.rfind(c)\<close>: the highest index of \<open>c\<close> in \<open>s\<close>, or \<open>-1\<close>.\<close>

fun rfind :: "string \<Rightarrow> char \<Rightarrow> int" where
  "rfind [] c = - 1"
| "rfind (x # xs) c =
     (let r = rfind xs c in if 0 \<le> r then r + 1 else if x = c then 0 else - 1)"

text \<open>\<open>s.split(sep)\<close> for a one-character separator; the result is never empty.\<close>

fun split_on :: "char \<Rightarrow> string \<Rightarrow> string list" where
  "split_on sep [] = [[]]"
| "split_on sep (c # cs) =
     (let r = split_on sep cs in if c = sep then [] # r else (c # hd r) # tl r)"

text \<open>\<open>sep.join(xs)\<close>.\<close>

fun join_with :: "string \<Rightarrow> string list \<Rightarrow> string" where
  "join_with sep [] = []"
| "join_with sep [x] = x"
| "join_with sep (x # y # ys) = x @ sep @ join_with sep (y # ys)"

text \<open>Decimal rendering of a non-negative integer, as \<open>str(n)\<close> and an f-string do.\<close>

definition digit_char :: "nat \<Rightarrow> char" where
  "digit_char d = ''0123456789'' ! (d mod 10)"

fun str_nat :: "nat \<Rightarrow> string" where
  "str_nat n = (if n < 10 then [digit_char n] else str_nat (n div 10) @ [digit_char (n mod 10)])"

declare str_nat.simps [simp del]

definition quoted :: "string \<Rightarrow> string" where
  "quoted s = [CHR 0x27] @ s @ [CHR 0x27]"

section \<open>Timestamps\<close>

text \<open>
  The value of \<open>datetime.now()\<close> and its rendering by \<open>strftime("%Y%m%d_%H%M%S")\<close>: every
  field in decimal, zero-padded to its width (four digits for the year, two for the rest).
\<close>

record datetime =
  year :: nat
  month :: nat
  day :: nat
  hour :: nat
  minute :: nat
  second :: nat

definition zero_pad :: "nat \<Rightarrow> string \<Rightarrow> string" where
  "zero_pad width s = replicate (width - length s) CHR ''0'' @ s"

definition strftime :: "datetime \<Rightarrow> string" where
  "strftime now =
     zero_pad 4 (str_nat (year now)) @ zero_pad 2 (str_nat (month now)) @
     zero_pad 2 (str_nat (day now)) @ ''_'' @
     zero_pad 2 (str_nat (hour now)) @ zero_pad 2 (str_nat (minute now)) @
     zero_pad 2 (str_nat (second now))"

definition valid_datetime :: "datetime \<Rightarrow> bool" where
  "valid_datetime now =
     (1000 \<le> year now \<and> year now \<le> 9999 \<and> 1 \<le> month now \<and> month now \<le> 12 \<and>
      1 \<le> day now \<and> day now \<le> 31 \<and> hour now < 24 \<and> minute now < 60 \<and> second now < 60)"

definition is_digit :: "char \<Rightarrow> bool" where
  "is_digit c = (c \<in> set ''0123456789'')"

text \<open>The shape \<open>YYYYMMDD_HHMMSS\<close>: eight digits, an underscore, six digits.\<close>

definition is_timestamp :: "string \<Rightarrow> bool" where
  "is_timestamp s =
     (length s = 15 \<and> list_all is_digit (take 8 s) \<and> s ! 8 = CHR ''_'' \<and>
      list_all is_digit (drop 9 s))"

section \<open>Paths (pathlib, POSIX flavour)\<close>

text \<open>
  A pure path is its root (\<open>''\<close>, \<open>'/'\<close> or \<open>'//'\<close>) and its components. \<open>Path(s)\<close> splits
  at \<open>'/'\<close> and drops empty and \<open>'.'\<close> components; two paths are equal when root and
  components are.
\<close>

datatype path = PurePath (root: string) (parts: "string list")

definition splitroot :: "string \<Rightarrow> string \<times> string" where
  "splitroot p =
     (if take 1 p \<noteq> ''/'' then ([], p)
      else if take 1 (drop 1 p) \<noteq> ''/'' \<or> take 1 (drop 2 p) = ''/'' then (''/'', drop 1 p)
      else (take 2 p, drop 2 p))"

definition Path :: "string \<Rightarrow> path" where
  "Path s =
     (if s = [] then PurePath [] []
      else (case splitroot s of
              (rt, rel) \<Rightarrow> PurePath rt (filter (\<lambda>x. x \<noteq> [] \<and> x \<noteq> ''.'') (split_on CHR ''/'' rel))))"

text \<open>The operator \<open>p / s\<close> with a string on the right: an absolute \<open>s\<close> replaces \<open>p\<close>.\<close>

definition joinpath :: "path \<Rightarrow> string \<Rightarrow> path" where
  "joinpath p s =
     (let q = Path s in if root q \<noteq> [] then q else PurePath (root p) (parts p @ parts q))"

definition path_name :: "path \<Rightarrow> string" where
  "path_name p = (if parts p = [] then [] else last (parts p))"

text \<open>
  \<open>suffix\<close> and \<open>stem\<close> of a final component, as pathlib computes them up to Python 3.13:
  the last dot counts only when it is neither the first nor the last character.
\<close>

definition name_suffix :: "string \<Rightarrow> string" where
  "name_suffix name =
     (let i = rfind name CHR ''.'' in
      if 0 < i \<and> i < int (length name) - 1 then drop (nat i) name else [])"

definition name_stem :: "string \<Rightarrow> string" where
  "name_stem name =
     (let i = rfind name CHR ''.'' in
      if 0 < i \<and> i < int (length name) - 1 then take (nat i) name else name)"

definition path_suffix :: "path \<Rightarrow> string" where
  "path_suffix p = name_suffix (path_name p)"

definition path_stem :: "path \<Rightarrow> string" where
  "path_stem p = name_stem (path_name p)"

definition parent :: "path \<Rightarrow> path" where
  "parent p = PurePath (root p) (butlast (parts p))"

definition str_path :: "path \<Rightarrow> string" where
  "str_path p =
     (if root p = [] \<and> parts p = [] then ''.'' else root p @ join_with ''/'' (parts p))"

text \<open>A name a directory entry can have: not empty, not \<open>'.'\<close> or \<open>'..'\<close>, no \<open>'/'\<close>.\<close>

definition valid_name :: "string \<Rightarrow> bool" where
  "valid_name n = (n \<noteq> [] \<and> n \<noteq> ''.'' \<and> n \<noteq> ''..'' \<and> CHR ''/'' \<notin> set n)"

definition is_child :: "path \<Rightarrow> path \<Rightarrow> bool" where
  "is_child d p = (root p = root d \<and> parts p \<noteq> [] \<and> butlast (parts p) = parts d)"

definition under :: "path \<Rightarrow> path \<Rightarrow> bool" where
  "under d p =
     (root p = root d \<and> length (parts d) < length (parts p) \<and>
      take (length (parts d)) (parts p) = parts d)"

section \<open>The category table and the classifier\<close>

text \<open>
  \<open>self.categories\<close> is assigned once in \<open>__init__\<close> and never changed; a dict iterates in
  insertion order, so it is an association list.
\<close>

definition categories :: "(string \<times> string list) list" where
  "categories =
     [(''documents'', [''.pdf'', ''.doc'', ''.docx'', ''.txt'', ''.rtf'', ''.odt'']),
      (''images'', [''.jpg'', ''.jpeg'', ''.png'', ''.gif'', ''.bmp'', ''.svg'']),
      (''audio'', [''.mp3'', ''.wav'', ''.flac'', ''.m4a'']),
      (''videos'', [''.mp4'', ''.avi'', ''.mkv'', ''.mov'']),
      (''archives'', [''.zip'', ''.rar'', ''.7z'', ''.tar'', ''.gz'']),
      (''code'', [''.py'', ''.js'', ''.html'', ''.css'', ''.java'', ''.cpp''])]"

fun get_category_in :: "(string \<times> string list) list \<Rightarrow> string \<Rightarrow> string" where
  "get_category_in [] file_extension = ''misc''"
| "get_category_in ((category, extensions) # rest) file_extension =
     (if lower file_extension \<in> set extensions then category
      else get_category_in rest file_extension)"

definition get_category :: "string \<Rightarrow> string" where
  "get_category file_extension = get_category_in categories file_extension"

text \<open>
  The extension as the specification words it: the substring from the last \<open>'.'\<close> onward,
  the dot included, and the empty string for a name without a dot.
\<close>

definition spec_extension :: "string \<Rightarrow> string" where
  "spec_extension name =
     (if CHR ''.'' \<in> set name
      then CHR ''.'' # rev (takeWhile (\<lambda>c. c \<noteq> CHR ''.'') (rev name))
      else [])"


section \<open>The file system\<close>

text \<open>
  A node is a directory, a regular file with its content, or the log file that the
  \<open>logging\<close> module holds open: \<open>OpenLog c\<close> is that file, \<open>c\<close> being the content it had when
  it was opened. Every message logged afterwards is appended to it wherever the file has
  been moved to; those messages are the list \<open>logged\<close> of the world below.

  The file system is the current directory together with the nodes, each under its
  absolute path. Symbolic and hard links are not modelled. The order of the entries is the
  order in which the operating system enumerates them.
\<close>

datatype node = File string | Dir | OpenLog string

record filesystem =
  cwd :: path
  entries :: "(path \<times> node) list"

datatype error =
    FileNotFoundError path
  | NotADirectoryError path
  | IsADirectoryError path
  | FileExistsError path
  | ShutilError path

fun str_error :: "error \<Rightarrow> string" where
  "str_error (FileNotFoundError p) = ''[Errno 2] No such file or directory: '' @ quoted (str_path p)"
| "str_error (NotADirectoryError p) = ''[Errno 20] Not a directory: '' @ quoted (str_path p)"
| "str_error (IsADirectoryError p) = ''[Errno 21] Is a directory: '' @ quoted (str_path p)"
| "str_error (FileExistsError p) = ''[Errno 17] File exists: '' @ quoted (str_path p)"
| "str_error (ShutilError p) = ''Destination path '' @ quoted (str_path p) @ '' already exists''"

text \<open>
  A path the program passes is resolved as the operating system does: a relative path
  starts from the current directory, and \<open>'..'\<close> steps back to the directory above.
  \<open>key\<close> is the absolute path reached. The step back out of something that is not an
  existing directory fails, and \<open>unresolved\<close> is the error it raises.
\<close>

definition base :: "filesystem \<Rightarrow> path \<Rightarrow> string list" where
  "base f p = (if root p = [] then parts (cwd f) else [])"

definition collapse :: "string list \<Rightarrow> string list" where
  "collapse ps = foldl (\<lambda>acc x. if x = ''..'' then butlast acc else acc @ [x]) [] ps"

definition key :: "filesystem \<Rightarrow> path \<Rightarrow> path" where
  "key f p = PurePath ''/'' (collapse (base f p @ parts p))"

fun unresolved :: "filesystem \<Rightarrow> path \<Rightarrow> string list \<Rightarrow> string list \<Rightarrow> error option" where
  "unresolved f p acc [] = None"
| "unresolved f p acc (x # xs) =
     (if x = ''..'' then
        (if acc = [] then unresolved f p [] xs
         else case map_of (entries f) (PurePath ''/'' acc) of
                None \<Rightarrow> Some (FileNotFoundError p)
              | Some Dir \<Rightarrow> unresolved f p (butlast acc) xs
              | Some other \<Rightarrow> Some (NotADirectoryError p))
      else unresolved f p (acc @ [x]) xs)"

definition broken :: "filesystem \<Rightarrow> path \<Rightarrow> error option" where
  "broken f p = unresolved f p [] (base f p @ parts p)"

definition lookup :: "filesystem \<Rightarrow> path \<Rightarrow> node option" where
  "lookup f p =
     (case broken f p of
        Some e \<Rightarrow> None
      | None \<Rightarrow> map_of (entries f) (key f p))"

definition store :: "filesystem \<Rightarrow> path \<Rightarrow> node \<Rightarrow> filesystem" where
  "store f p n = f\<lparr>entries := AList.update (key f p) n (entries f)\<rparr>"

definition remove :: "filesystem \<Rightarrow> path \<Rightarrow> filesystem" where
  "remove f p = f\<lparr>entries := AList.delete (key f p) (entries f)\<rparr>"

definition path_exists :: "filesystem \<Rightarrow> path \<Rightarrow> bool" where
  "path_exists f p = (lookup f p \<noteq> None)"

definition is_file :: "filesystem \<Rightarrow> path \<Rightarrow> bool" where
  "is_file f p =
     (case lookup f p of
        Some (File content) \<Rightarrow> True
      | Some (OpenLog content) \<Rightarrow> True
      | _ \<Rightarrow> False)"

definition is_dir :: "filesystem \<Rightarrow> path \<Rightarrow> bool" where
  "is_dir f p = (lookup f p = Some Dir)"

text \<open>An operation that needs the directory holding \<open>p\<close> fails as the system call does.\<close>

definition parent_error :: "filesystem \<Rightarrow> path \<Rightarrow> error option" where
  "parent_error f p =
     (case broken f p of
        Some e \<Rightarrow> Some e
      | None \<Rightarrow>
          (case map_of (entries f) (parent (key f p)) of
             None \<Rightarrow> Some (FileNotFoundError p)
           | Some Dir \<Rightarrow> None
           | Some other \<Rightarrow> Some (NotADirectoryError p)))"

definition mkdir :: "filesystem \<Rightarrow> path \<Rightarrow> error + filesystem" where
  "mkdir f p =
     (if path_exists f p then Inl (FileExistsError p)
      else case parent_error f p of
             Some e \<Rightarrow> Inl e
           | None \<Rightarrow> Inr (f\<lparr>entries := entries f @ [(key f p, Dir)]\<rparr>))"

text \<open>
  \<open>p.iterdir()\<close>: the entries of a directory, listed before the loop starts, each as the
  directory's own path extended by the entry's name. A listing never holds \<open>'.'\<close>,
  \<open>'..'\<close> or a name with a \<open>'/'\<close>.
\<close>

definition child_keys :: "filesystem \<Rightarrow> path \<Rightarrow> path list" where
  "child_keys f d =
     filter (\<lambda>k. is_child (key f d) k \<and> valid_name (path_name k)) (map fst (entries f))"

definition children :: "filesystem \<Rightarrow> path \<Rightarrow> path list" where
  "children f d = map (\<lambda>k. PurePath (root d) (parts d @ [path_name k])) (child_keys f d)"

definition iterdir :: "filesystem \<Rightarrow> path \<Rightarrow> error + path list" where
  "iterdir f d =
     (case broken f d of
        Some e \<Rightarrow> Inl e
      | None \<Rightarrow>
          (case lookup f d of
             None \<Rightarrow> Inl (FileNotFoundError d)
           | Some Dir \<Rightarrow> Inr (children f d)
           | Some other \<Rightarrow> Inl (NotADirectoryError d)))"

text \<open>
  \<open>d.glob('*')\<close>: every entry of \<open>d\<close>, files and directories alike, hidden names
  included; nothing when \<open>d\<close> is not a directory.
\<close>

definition glob_star :: "filesystem \<Rightarrow> path \<Rightarrow> path list" where
  "glob_star f d = (if is_dir f d then children f d else [])"

text \<open>
  \<open>os.rename\<close> of a regular file: the node moves as it is, and an existing regular file at
  the destination is replaced.
\<close>

definition place :: "filesystem \<Rightarrow> path \<Rightarrow> path \<Rightarrow> node \<Rightarrow> error + filesystem" where
  "place f src dst n =
     (case parent_error f dst of
        Some e \<Rightarrow> Inl e
      | None \<Rightarrow>
          if is_dir f dst then Inl (IsADirectoryError dst)
          else Inr (store (remove f src) dst n))"

definition rename :: "filesystem \<Rightarrow> path \<Rightarrow> path \<Rightarrow> error + filesystem" where
  "rename f src dst =
     (case lookup f src of
        Some (File content) \<Rightarrow> place f src dst (File content)
      | Some (OpenLog content) \<Rightarrow> place f src dst (OpenLog content)
      | _ \<Rightarrow> Inl (FileNotFoundError src))"

text \<open>
  \<open>shutil.move(src, dst)\<close> for a source that is a regular file, which is the only use the
  program makes of it: when \<open>dst\<close> is an existing directory the file goes inside it under
  its own name, unless that name is taken; otherwise the file is renamed to \<open>dst\<close>.
\<close>

definition real_dst :: "filesystem \<Rightarrow> path \<Rightarrow> path \<Rightarrow> path" where
  "real_dst f src dst = (if is_dir f dst then joinpath dst (path_name src) else dst)"

definition shutil_move :: "filesystem \<Rightarrow> path \<Rightarrow> path \<Rightarrow> error + filesystem" where
  "shutil_move f src dst =
     (if is_dir f dst \<and> path_exists f (real_dst f src dst)
      then Inl (ShutilError (real_dst f src dst))
      else rename f src (real_dst f src dst))"


section \<open>The organizer\<close>

text \<open>
  What a run reads and writes: the file system, whether \<open>logging\<close> has been configured, the
  messages handed to \<open>logging\<close>, the lines printed, and how many times \<open>datetime.now()\<close>
  was read. The clock itself is a parameter \<open>clock\<close>: its \<open>k\<close>-th reading is \<open>clock k\<close>.
\<close>

record world =
  fs :: filesystem
  configured :: bool
  logged :: "string list"
  printed :: "string list"
  ticks :: nat

text \<open>
  \<open>logging.basicConfig(filename='file_organizer.log', ...)\<close>: unless logging is configured
  already, the handler takes the absolute path of that name in the current directory
  (\<open>os.path.abspath\<close>) and opens it for appending, creating the file when it is not there.
\<close>

definition log_file :: path where
  "log_file = Path ''file_organizer.log''"

definition abspath :: "filesystem \<Rightarrow> path \<Rightarrow> path" where
  "abspath f p = key f p"

definition basicConfig :: "world \<Rightarrow> world \<times> (error + unit)" where
  "basicConfig w =
     (if configured w then (w, Inr ())
      else
        (let filename = abspath (fs w) log_file in
         case parent_error (fs w) filename of
           Some e \<Rightarrow> (w, Inl e)
         | None \<Rightarrow>
             (case lookup (fs w) filename of
                Some Dir \<Rightarrow> (w, Inl (IsADirectoryError filename))
              | Some (File content) \<Rightarrow>
                  (w\<lparr>fs := store (fs w) filename (OpenLog content), configured := True\<rparr>,
                   Inr ())
              | Some (OpenLog content) \<Rightarrow> (w\<lparr>configured := True\<rparr>, Inr ())
              | None \<Rightarrow>
                  (w\<lparr>fs := store (fs w) filename (OpenLog []), configured := True\<rparr>,
                   Inr ()))))"

record FileOrganizer =
  source_dir :: path
  organized_dir :: path

text \<open>
  \<open>__init__\<close> assigns the two paths and configures logging: \<open>FileOrganizer_init\<close> is the
  object with its fields, \<open>new_FileOrganizer\<close> the whole constructor call.
\<close>

definition FileOrganizer_init :: "string \<Rightarrow> FileOrganizer" where
  "FileOrganizer_init dir =
     \<lparr>source_dir = Path dir, organized_dir = joinpath (Path dir) ''organized_files''\<rparr>"

definition new_FileOrganizer :: "string \<Rightarrow> world \<Rightarrow> world \<times> (error + FileOrganizer)" where
  "new_FileOrganizer dir w =
     (case basicConfig w of
        (w', Inl e) \<Rightarrow> (w', Inl e)
      | (w', Inr u) \<Rightarrow> (w', Inr (FileOrganizer_init dir)))"

text \<open>\<open>logging.info\<close> and \<open>logging.error\<close>: one more message.\<close>

definition info :: "string \<Rightarrow> world \<Rightarrow> world" where
  "info msg w = w\<lparr>logged := logged w @ [msg]\<rparr>"

text \<open>The step \<open>if not p.exists(): p.mkdir()\<close>, and the sequence of them.\<close>

definition ensure_dir :: "path \<Rightarrow> filesystem \<Rightarrow> error + filesystem" where
  "ensure_dir p f = (if path_exists f p then Inr f else mkdir f p)"

fun ensure_dirs :: "path list \<Rightarrow> filesystem \<Rightarrow> filesystem \<times> (error + unit)" where
  "ensure_dirs [] f = (f, Inr ())"
| "ensure_dirs (p # ps) f =
     (case ensure_dir p f of
        Inl e \<Rightarrow> (f, Inl e)
      | Inr f' \<Rightarrow> ensure_dirs ps f')"

definition layout :: "FileOrganizer \<Rightarrow> path list" where
  "layout self =
     organized_dir self # map (joinpath (organized_dir self)) (map fst categories) @
     [joinpath (organized_dir self) ''misc'']"

definition create_directories :: "FileOrganizer \<Rightarrow> world \<Rightarrow> world \<times> (error + unit)" where
  "create_directories self w =
     (case ensure_dirs (layout self) (fs w) of
        (f', Inr u) \<Rightarrow> (info ''Directory structure created successfully'' (w\<lparr>fs := f'\<rparr>), Inr ())
      | (f', Inl e) \<Rightarrow>
          (info (''Error creating directories: '' @ str_error e) (w\<lparr>fs := f'\<rparr>), Inl e))"

text \<open>The destination of one file: as first computed, and after the collision check.\<close>

definition initial_dest :: "FileOrganizer \<Rightarrow> path \<Rightarrow> path" where
  "initial_dest self file_path =
     (let file_extension = path_suffix file_path;
          category = get_category file_extension;
          dest_dir = joinpath (organized_dir self) category
      in joinpath dest_dir (path_name file_path))"

definition final_dest :: "(nat \<Rightarrow> datetime) \<Rightarrow> FileOrganizer \<Rightarrow> world \<Rightarrow> path \<Rightarrow> path" where
  "final_dest clock self w file_path =
     (let dest_dir = joinpath (organized_dir self) (get_category (path_suffix file_path));
          dest_path = initial_dest self file_path
      in if path_exists (fs w) dest_path then
           (let base_name = path_stem dest_path;
                extension = path_suffix dest_path;
                timestamp = strftime (clock (ticks w))
            in joinpath dest_dir (base_name @ ''_'' @ timestamp @ extension))
         else dest_path)"

text \<open>The body of the loop from the extension lookup to the log line of the move.\<close>

definition move_one ::
  "(nat \<Rightarrow> datetime) \<Rightarrow> FileOrganizer \<Rightarrow> path \<Rightarrow> world \<Rightarrow> world \<times> (error + unit)" where
  "move_one clock self file_path w =
     (let category = get_category (path_suffix file_path);
          dest_path = final_dest clock self w file_path;
          w1 = (if path_exists (fs w) (initial_dest self file_path)
                then w\<lparr>ticks := ticks w + 1\<rparr> else w)
      in case shutil_move (fs w1) file_path dest_path of
           Inl e \<Rightarrow> (w1, Inl e)
         | Inr f' \<Rightarrow>
             (info (''Moved '' @ quoted (path_name file_path) @ '' to '' @ category @ '' folder'')
                (w1\<lparr>fs := f'\<rparr>), Inr ()))"

record counters =
  total_files :: nat
  organized_files :: nat

definition considered :: "filesystem \<Rightarrow> path \<Rightarrow> bool" where
  "considered f file_path = (is_file f file_path \<and> file_path \<noteq> Path ''file_organizer.log'')"

fun organize_loop ::
  "(nat \<Rightarrow> datetime) \<Rightarrow> FileOrganizer \<Rightarrow> path list \<Rightarrow> world \<times> counters \<Rightarrow>
   (world \<times> counters) \<times> (error + unit)" where
  "organize_loop clock self [] (w, c) = ((w, c), Inr ())"
| "organize_loop clock self (file_path # rest) (w, c) =
     (if considered (fs w) file_path then
        (let c1 = c\<lparr>total_files := total_files c + 1\<rparr> in
         case move_one clock self file_path w of
           (w', Inl e) \<Rightarrow> ((w', c1), Inl e)
         | (w', Inr u) \<Rightarrow>
             organize_loop clock self rest
               (w', c1\<lparr>organized_files := organized_files c1 + 1\<rparr>))
      else organize_loop clock self rest (w, c))"

definition organize_body ::
  "(nat \<Rightarrow> datetime) \<Rightarrow> FileOrganizer \<Rightarrow> world \<Rightarrow> world \<times> (error + nat \<times> nat)" where
  "organize_body clock self w =
     (case create_directories self w of
        (w1, Inl e) \<Rightarrow> (w1, Inl e)
      | (w1, Inr u) \<Rightarrow>
          (case iterdir (fs w1) (source_dir self) of
             Inl e \<Rightarrow> (w1, Inl e)
           | Inr listing \<Rightarrow>
               (case organize_loop clock self listing
                       (w1, \<lparr>total_files = 0, organized_files = 0\<rparr>) of
                  ((w2, c), Inl e) \<Rightarrow> (w2, Inl e)
                | ((w2, c), Inr u) \<Rightarrow>
                    (info (''Organization complete. Processed '' @ str_nat (organized_files c) @
                           '' of '' @ str_nat (total_files c) @ '' files'') w2,
                     Inr (organized_files c, total_files c)))))"

definition organize_files ::
  "(nat \<Rightarrow> datetime) \<Rightarrow> FileOrganizer \<Rightarrow> world \<Rightarrow> world \<times> (error + nat \<times> nat)" where
  "organize_files clock self w =
     (case organize_body clock self w of
        (w', Inl e) \<Rightarrow> (info (''Error organizing files: '' @ str_error e) w', Inl e)
      | (w', Inr counts) \<Rightarrow> (w', Inr counts))"

text \<open>A run of the organizer: \<open>FileOrganizer(dir).organize_files()\<close>.\<close>

definition organize_run ::
  "(nat \<Rightarrow> datetime) \<Rightarrow> string \<Rightarrow> world \<Rightarrow> world \<times> (error + nat \<times> nat)" where
  "organize_run clock dir w =
     (case new_FileOrganizer dir w of
        (w0, Inl e) \<Rightarrow> (w0, Inl e)
      | (w0, Inr organizer) \<Rightarrow> organize_files clock organizer w0)"

section \<open>The report\<close>

definition report_line :: "filesystem \<Rightarrow> path \<Rightarrow> string \<Rightarrow> string \<Rightarrow> string" where
  "report_line f organized label folder =
     label @ '': '' @ str_nat (length (glob_star f (joinpath organized folder))) @ '' files''"

definition report :: "FileOrganizer \<Rightarrow> filesystem \<Rightarrow> string list" where
  "report self f =
     [''File Organization Report'', replicate 25 CHR ''=''] @
     map (\<lambda>category. report_line f (organized_dir self) (capitalize category) category)
       (map fst categories) @
     [report_line f (organized_dir self) ''Miscellaneous'' ''misc'']"


section \<open>The entry point\<close>




section \<open>Runs that leave a file alone\<close>

text \<open>
  \<open>spares\<close> follows the loop and holds when no move has the path \<open>q\<close> as its
  destination. \<open>keeps_moved\<close> holds when no move has as its destination the place where
  an earlier move of the same loop put a file; \<open>landed\<close> lists those places.
\<close>

fun spares ::
  "(nat \<Rightarrow> datetime) \<Rightarrow> FileOrganizer \<Rightarrow> path \<Rightarrow> path list \<Rightarrow> world \<Rightarrow> bool" where
  "spares clock self q [] w = True"
| "spares clock self q (file_path # rest) w =
     (if considered (fs w) file_path then
        key (fs w) (final_dest clock self w file_path) \<noteq> key (fs w) q \<and>
        (case move_one clock self file_path w of
           (w', Inl e) \<Rightarrow> True
         | (w', Inr u) \<Rightarrow> spares clock self q rest w')
      else spares clock self q rest w)"

fun keeps_moved ::
  "(nat \<Rightarrow> datetime) \<Rightarrow> FileOrganizer \<Rightarrow> path list \<Rightarrow> path list \<Rightarrow> world \<Rightarrow> bool" where
  "keeps_moved clock self landed [] w = True"
| "keeps_moved clock self landed (file_path # rest) w =
     (if considered (fs w) file_path then
        key (fs w) (final_dest clock self w file_path) \<notin> set landed \<and>
        (case move_one clock self file_path w of
           (w', Inl e) \<Rightarrow> True
         | (w', Inr u) \<Rightarrow>
             keeps_moved clock self
               (key (fs w) (real_dst (fs w) file_path (final_dest clock self w file_path)) #
                landed) rest w')
      else keeps_moved clock self landed rest w)"

text \<open>The same for a whole run, from the constructor to the loop.\<close>

definition scanned ::
  "string \<Rightarrow> world \<Rightarrow> (FileOrganizer \<times> path list \<times> world) option" where
  "scanned dir w =
     (case new_FileOrganizer dir w of
        (w0, Inl e) \<Rightarrow> None
      | (w0, Inr organizer) \<Rightarrow>
          (case create_directories organizer w0 of
             (w1, Inl e) \<Rightarrow> None
           | (w1, Inr u) \<Rightarrow>
               (case iterdir (fs w1) (source_dir organizer) of
                  Inl e \<Rightarrow> None
                | Inr listing \<Rightarrow> Some (organizer, listing, w1))))"

definition run_spares :: "(nat \<Rightarrow> datetime) \<Rightarrow> string \<Rightarrow> path \<Rightarrow> world \<Rightarrow> bool" where
  "run_spares clock dir q w =
     (case scanned dir w of
        None \<Rightarrow> True
      | Some (organizer, listing, w1) \<Rightarrow> spares clock organizer q listing w1)"

definition run_keeps_moved :: "(nat \<Rightarrow> datetime) \<Rightarrow> string \<Rightarrow> world \<Rightarrow> bool" where
  "run_keeps_moved clock dir w =
     (case scanned dir w of
        None \<Rightarrow> True
      | Some (organizer, listing, w1) \<Rightarrow> keeps_moved clock organizer [] listing w1)"


section \<open>Example worlds\<close>

text \<open>
  Concrete clocks and file systems at which the theorems below are evaluated. The current
  directory is \<open>/w\<close>, and logging is not yet configured.
\<close>

definition example_clock :: "nat \<Rightarrow> datetime" where
  "example_clock k = \<lparr>year = 2026, month = 11, day = 4, hour = 12, minute = 0, second = 0\<rparr>"

definition collision_world :: world where
  "collision_world =
     \<lparr>fs = \<lparr>cwd = PurePath ''/'' [''w''],
        entries = [(PurePath ''/'' [''w''], Dir),
                   (PurePath ''/'' [''w'', ''dl''], Dir),
                   (PurePath ''/'' [''w'', ''dl'', ''report.txt''], File ''new''),
                   (PurePath ''/'' [''w'', ''dl'', ''organized_files''], Dir),
                   (PurePath ''/'' [''w'', ''dl'', ''organized_files'', ''documents''], Dir),
                   (PurePath ''/'' [''w'', ''dl'', ''organized_files'', ''documents'', ''report.txt''], File ''old'')]\<rparr>,
      configured = False, logged = [], printed = [], ticks = 0\<rparr>"

definition trailing_dot_world :: world where
  "trailing_dot_world =
     \<lparr>fs = \<lparr>cwd = PurePath ''/'' [''w''],
        entries = [(PurePath ''/'' [''w''], Dir),
                   (PurePath ''/'' [''w'', ''dl''], Dir),
                   (PurePath ''/'' [''w'', ''dl'', ''notes.''], File ''new''),
                   (PurePath ''/'' [''w'', ''dl'', ''organized_files''], Dir),
                   (PurePath ''/'' [''w'', ''dl'', ''organized_files'', ''misc''], Dir),
                   (PurePath ''/'' [''w'', ''dl'', ''organized_files'', ''misc'', ''notes.''], File ''old'')]\<rparr>,
      configured = False, logged = [], printed = [], ticks = 0\<rparr>"

definition scenario_world :: world where
  "scenario_world =
     \<lparr>fs = \<lparr>cwd = PurePath ''/'' [''w''],
        entries = [(PurePath ''/'' [''w''], Dir),
                   (PurePath ''/'' [''w'', ''dl''], Dir),
                   (PurePath ''/'' [''w'', ''dl'', ''a.txt''], File ''alpha''),
                   (PurePath ''/'' [''w'', ''dl'', ''b.jpg''], File ''beta''),
                   (PurePath ''/'' [''w'', ''dl'', ''c.unknown''], File ''gamma''),
                   (PurePath ''/'' [''w'', ''dl'', ''sub''], Dir)]\<rparr>,
      configured = False, logged = [], printed = [], ticks = 0\<rparr>"

definition log_in_source_world :: world where
  "log_in_source_world =
     \<lparr>fs = \<lparr>cwd = PurePath ''/'' [''w''],
        entries = [(PurePath ''/'' [''w''], Dir),
                   (PurePath ''/'' [''w'', ''dl''], Dir),
                   (PurePath ''/'' [''w'', ''dl'', ''a.txt''], File ''alpha''),
                   (PurePath ''/'' [''w'', ''dl'', ''file_organizer.log''], File ''log lines'')]\<rparr>,
      configured = False, logged = [], printed = [], ticks = 0\<rparr>"

definition log_in_cwd_world :: world where
  "log_in_cwd_world =
     \<lparr>fs = \<lparr>cwd = PurePath ''/'' [''w''],
        entries = [(PurePath ''/'' [''w''], Dir),
                   (PurePath ''/'' [''w'', ''a.txt''], File ''alpha''),
                   (PurePath ''/'' [''w'', ''file_organizer.log''], File ''log lines'')]\<rparr>,
      configured = False, logged = [], printed = [], ticks = 0\<rparr>"




definition timestamp_dir_world :: world where
  "timestamp_dir_world =
     \<lparr>fs = \<lparr>cwd = PurePath ''/'' [''w''],
        entries = [(PurePath ''/'' [''w''], Dir),
                   (PurePath ''/'' [''w'', ''dl''], Dir),
                   (PurePath ''/'' [''w'', ''dl'', ''report.txt''], File ''new''),
                   (PurePath ''/'' [''w'', ''dl'', ''organized_files''], Dir),
                   (PurePath ''/'' [''w'', ''dl'', ''organized_files'', ''documents''], Dir),
                   (PurePath ''/'' [''w'', ''dl'', ''organized_files'', ''documents'', ''report.txt''], File ''old''),
                   (PurePath ''/'' [''w'', ''dl'', ''organized_files'', ''documents'', ''report_20261104_120000.txt''], Dir)]\<rparr>,
      configured = False, logged = [], printed = [], ticks = 0\<rparr>"

definition overwrite_world :: world where
  "overwrite_world =
     \<lparr>fs = \<lparr>cwd = PurePath ''/'' [''w''],
        entries = [(PurePath ''/'' [''w''], Dir),
                   (PurePath ''/'' [''w'', ''dl''], Dir),
                   (PurePath ''/'' [''w'', ''dl'', ''b.txt''], File ''new one''),
                   (PurePath ''/'' [''w'', ''dl'', ''b_20261104_120000.txt''], File ''new two''),
                   (PurePath ''/'' [''w'', ''dl'', ''organized_files''], Dir),
                   (PurePath ''/'' [''w'', ''dl'', ''organized_files'', ''documents''], Dir),
                   (PurePath ''/'' [''w'', ''dl'', ''organized_files'', ''documents'', ''b.txt''], File ''old one''),
                   (PurePath ''/'' [''w'', ''dl'', ''organized_files'', ''documents'', ''b_20261104_120000.txt''], File ''old two'')]\<rparr>,
      configured = False, logged = [], printed = [], ticks = 0\<rparr>"

definition lost_file_world :: world where
  "lost_file_world =
     \<lparr>fs = \<lparr>cwd = PurePath ''/'' [''w''],
        entries = [(PurePath ''/'' [''w''], Dir),
                   (PurePath ''/'' [''w'', ''dl''], Dir),
                   (PurePath ''/'' [''w'', ''dl'', ''b_20261104_120000.txt''], File ''first''),
                   (PurePath ''/'' [''w'', ''dl'', ''b.txt''], File ''second''),
                   (PurePath ''/'' [''w'', ''dl'', ''organized_files''], Dir),
                   (PurePath ''/'' [''w'', ''dl'', ''organized_files'', ''documents''], Dir),
                   (PurePath ''/'' [''w'', ''dl'', ''organized_files'', ''documents'', ''b.txt''], File ''old'')]\<rparr>,
      configured = False, logged = [], printed = [], ticks = 0\<rparr>"

definition empty_world :: world where
  "empty_world =
     \<lparr>fs = \<lparr>cwd = PurePath ''/'' [''w''],
        entries = [(PurePath ''/'' [''w''], Dir)]\<rparr>,
      configured = False, logged = [], printed = [], ticks = 0\<rparr>"


section \<open>Strings, suffixes and timestamps: basic facts\<close>

lemma lower_char_idem: "lower_char (lower_char c) = lower_char c"
  by (simp add: lower_char_def)

lemma lower_char_E2: "lower_char (CHR 0xE2) = CHR 0xE2"
  by (simp add: lower_char_def)

lemma lower_char_k: "lower_char CHR ''k'' = CHR ''k''"
  by (simp add: lower_char_def)

lemma lower_char_cases:
  "lower_char c = c \<or> lower_char c \<in> set ''abcdefghijklmnopqrstuvwxyz''"
proof (cases "map_of (zip ''ABCDEFGHIJKLMNOPQRSTUVWXYZ'' ''abcdefghijklmnopqrstuvwxyz'') c")
  case None
  then show ?thesis unfolding lower_char_def by simp
next
  case (Some l)
  then have "(c, l) \<in> set (zip ''ABCDEFGHIJKLMNOPQRSTUVWXYZ'' ''abcdefghijklmnopqrstuvwxyz'')"
    by (rule map_of_SomeD)
  then have "l \<in> set ''abcdefghijklmnopqrstuvwxyz''" by (rule set_zip_rightD)
  then show ?thesis unfolding lower_char_def Some by simp
qed

lemma lower_char_range:
  assumes "lower_char c = x" and "x \<in> {CHR 0xE2, CHR 0x84, CHR 0xAA}"
  shows "c = x"
proof -
  have "x \<notin> set ''abcdefghijklmnopqrstuvwxyz''" using assms(2) by auto
  then show ?thesis using lower_char_cases[of c] assms(1) by auto
qed

lemma lower_Cons: "c \<noteq> CHR 0xE2 \<Longrightarrow> lower (c # t) = lower_char c # lower t"
  by (cases t rule: lower.cases) simp_all

lemma lower_Cons_other:
  "take 2 t \<noteq> [CHR 0x84, CHR 0xAA] \<Longrightarrow> lower (c # t) = lower_char c # lower t"
  by (cases t rule: lower.cases) auto

lemma lower_first:
  "lower (c # t) = x # r \<Longrightarrow> c = CHR 0xE2 \<Longrightarrow> x = CHR ''k'' \<or> x = CHR 0xE2"
  by (cases t rule: lower.cases) (auto simp: lower_char_E2 split: if_splits)

lemma lower_head:
  assumes "lower (c # t) = x # r" and "x = CHR 0x84 \<or> x = CHR 0xAA"
  shows "c = x \<and> r = lower t"
proof (cases "c = CHR 0xE2")
  case True
  with assms(1) have "x = CHR ''k'' \<or> x = CHR 0xE2" by (rule lower_first)
  then show ?thesis using assms(2) by auto
next
  case False
  then have "lower_char c = x \<and> r = lower t" using assms(1) by (simp add: lower_Cons)
  then show ?thesis using assms(2) lower_char_range[of c x] by auto
qed

lemma lower_take2:
  assumes "take 2 (lower u) = [CHR 0x84, CHR 0xAA]"
  shows "take 2 u = [CHR 0x84, CHR 0xAA]"
proof (cases u)
  case Nil then show ?thesis using assms by simp
next
  case (Cons a u')
  note u = Cons
  obtain r where l: "lower (a # u') = CHR 0x84 # r" and r: "take 1 r = [CHR 0xAA]"
    using assms u by (cases "lower (a # u')") (auto split: if_splits)
  from lower_head[OF l] have a: "a = CHR 0x84" and r': "r = lower u'" by auto
  show ?thesis
  proof (cases u')
    case Nil then show ?thesis using r r' by simp
  next
    case (Cons b u'')
    obtain r2 where l2: "lower (b # u'') = CHR 0xAA # r2"
      using r r' Cons by (cases "lower (b # u'')") (auto split: if_splits)
    from lower_head[OF l2] have "b = CHR 0xAA" by auto
    then show ?thesis using a Cons u by simp
  qed
qed

lemma lower_idem: "lower (lower s) = lower s"
proof (induction s rule: lower.induct)
  case (1 c1 c2 c3 cs)
  show ?case
  proof (cases "c1 = CHR 0xE2 \<and> c2 = CHR 0x84 \<and> c3 = CHR 0xAA")
    case True
    then have e: "lower (c1 # c2 # c3 # cs) = CHR ''k'' # lower cs" by simp
    have "lower (CHR ''k'' # lower cs) = CHR ''k'' # lower (lower cs)"
      by (simp add: lower_Cons lower_char_k)
    then show ?thesis unfolding e using 1(1) True by simp
  next
    case False
    note nk = False
    then have e: "lower (c1 # c2 # c3 # cs) = lower_char c1 # lower (c2 # c3 # cs)" by auto
    have ih: "lower (lower (c2 # c3 # cs)) = lower (c2 # c3 # cs)"
      using 1(2) nk by blast
    have "take 2 (lower (c2 # c3 # cs)) \<noteq> [CHR 0x84, CHR 0xAA] \<or> c1 \<noteq> CHR 0xE2"
      using lower_take2[of "c2 # c3 # cs"] nk by auto
    then have "lower (lower_char c1 # lower (c2 # c3 # cs)) =
               lower_char (lower_char c1) # lower (lower (c2 # c3 # cs))"
    proof
      assume "take 2 (lower (c2 # c3 # cs)) \<noteq> [CHR 0x84, CHR 0xAA]"
      then show ?thesis by (rule lower_Cons_other)
    next
      assume "c1 \<noteq> CHR 0xE2"
      then have "lower_char c1 \<noteq> CHR 0xE2" using lower_char_range[of c1 "CHR 0xE2"] by auto
      then show ?thesis by (rule lower_Cons)
    qed
    then show ?thesis unfolding e ih by (simp only: lower_char_idem)
  qed
qed (simp_all add: lower_char_idem)

lemma get_category_in_lower:
  "get_category_in cats (lower e) = get_category_in cats e"
  by (induction cats e rule: get_category_in.induct) (simp_all add: lower_idem)

lemma get_category_in_first:
  "cats = pre @ (category, extensions) # post \<Longrightarrow> lower e \<in> set extensions \<Longrightarrow>
   (\<forall>(c, exts) \<in> set pre. lower e \<notin> set exts) \<Longrightarrow> get_category_in cats e = category"
  by (induction pre arbitrary: cats) auto

lemma get_category_in_none:
  "(\<forall>(c, exts) \<in> set cats. lower e \<notin> set exts) \<Longrightarrow> get_category_in cats e = ''misc''"
  by (induction cats) auto

lemma rfind_absent: "c \<notin> set s \<Longrightarrow> rfind s c = - 1"
  by (induction s) (auto simp: Let_def)

lemma rfind_last: "c \<notin> set post \<Longrightarrow> rfind (pre @ c # post) c = int (length pre)"
  by (induction pre) (simp_all add: Let_def rfind_absent)

lemma split_last_dot:
  "c \<in> set s \<Longrightarrow> \<exists>pre post. s = pre @ c # post \<and> c \<notin> set post"
  by (rule split_list_last)

lemma name_suffix_nodot: "CHR ''.'' \<notin> set n \<Longrightarrow> name_suffix n = []"
  by (simp add: name_suffix_def rfind_absent)

lemma name_stem_nodot: "CHR ''.'' \<notin> set n \<Longrightarrow> name_stem n = n"
  by (simp add: name_stem_def rfind_absent)

lemma name_suffix_split:
  "CHR ''.'' \<notin> set post \<Longrightarrow>
   name_suffix (pre @ CHR ''.'' # post) = (if pre \<noteq> [] \<and> post \<noteq> [] then CHR ''.'' # post else [])"
  by (simp add: name_suffix_def rfind_last Let_def)

lemma name_stem_split:
  "CHR ''.'' \<notin> set post \<Longrightarrow>
   name_stem (pre @ CHR ''.'' # post) = (if pre \<noteq> [] \<and> post \<noteq> [] then pre else pre @ CHR ''.'' # post)"
  by (simp add: name_stem_def rfind_last Let_def)

lemma stem_suffix: "name_stem n @ name_suffix n = n"
  by (simp add: name_stem_def name_suffix_def Let_def)

lemma spec_extension_split:
  assumes "CHR ''.'' \<notin> set post"
  shows "spec_extension (pre @ CHR ''.'' # post) = CHR ''.'' # post"
proof -
  have "takeWhile (\<lambda>c. c \<noteq> CHR ''.'') (rev post) = rev post"
    using assms by (auto simp: takeWhile_eq_all_conv)
  then have "takeWhile (\<lambda>c. c \<noteq> CHR ''.'') (rev post @ CHR ''.'' # rev pre) = rev post"
    by (simp add: takeWhile_tail[of "\<lambda>c. c \<noteq> CHR ''.''"])
  then show ?thesis by (simp add: spec_extension_def)
qed

lemma digit_char_digit: "is_digit (digit_char d)"
proof -
  have "d mod 10 < length ''0123456789''" by simp
  then have "''0123456789'' ! (d mod 10) \<in> set ''0123456789''" by (rule nth_mem)
  then show ?thesis by (simp add: is_digit_def digit_char_def)
qed

lemma str_nat_digits: "list_all is_digit (str_nat n)"
  by (induction n rule: str_nat.induct) (subst str_nat.simps, simp add: digit_char_digit)

lemma is_digit_zero: "is_digit CHR ''0''"
  by (simp add: is_digit_def)

lemma zero_pad_digits: "list_all is_digit s \<Longrightarrow> list_all is_digit (zero_pad k s)"
  by (auto simp: zero_pad_def list_all_iff is_digit_zero)

lemma strftime_chars: "c \<in> set (strftime dt) \<Longrightarrow> is_digit c \<or> c = CHR ''_''"
  using zero_pad_digits[OF str_nat_digits]
  by (auto simp: strftime_def list_all_iff)

lemma strftime_no_dot: "CHR ''.'' \<notin> set (strftime dt)"
  using strftime_chars[of "CHR ''.''" dt] by (auto simp: is_digit_def)

lemma strftime_no_slash: "CHR ''/'' \<notin> set (strftime dt)"
  using strftime_chars[of "CHR ''/''" dt] by (auto simp: is_digit_def)

lemma get_category_table:
  "get_category e =
     (if lower e \<in> {''.pdf'', ''.doc'', ''.docx'', ''.txt'', ''.rtf'', ''.odt''} then ''documents''
      else if lower e \<in> {''.jpg'', ''.jpeg'', ''.png'', ''.gif'', ''.bmp'', ''.svg''} then ''images''
      else if lower e \<in> {''.mp3'', ''.wav'', ''.flac'', ''.m4a''} then ''audio''
      else if lower e \<in> {''.mp4'', ''.avi'', ''.mkv'', ''.mov''} then ''videos''
      else if lower e \<in> {''.zip'', ''.rar'', ''.7z'', ''.tar'', ''.gz''} then ''archives''
      else if lower e \<in> {''.py'', ''.js'', ''.html'', ''.css'', ''.java'', ''.cpp''} then ''code''
      else ''misc'')"
  unfolding get_category_def categories_def get_category_in.simps by simp

lemma get_category_empty: "get_category [] = ''misc''"
  by (simp add: get_category_table)

lemma lower_dot_underscore:
  "lower (CHR ''.'' # CHR ''_'' # rest) = CHR ''.'' # CHR ''_'' # lower rest"
  by (simp add: lower_Cons lower_char_def)

lemma get_category_dot_underscore: "get_category (CHR ''.'' # CHR ''_'' # rest) = ''misc''"
  unfolding get_category_table lower_dot_underscore by simp

lemma name_suffix_dot: "name_suffix ''.'' = []" and name_stem_dot: "name_stem ''.'' = ''.''"
  by (simp_all add: name_suffix_def name_stem_def)

lemma renamed_suffix_nodot:
  assumes "CHR ''.'' \<notin> set n" and "CHR ''.'' \<notin> set ts"
  shows "name_suffix (name_stem n @ CHR ''_'' # ts @ name_suffix n) = []"
proof -
  have "CHR ''.'' \<notin> set (n @ CHR ''_'' # ts)" using assms by simp
  then have "name_suffix (n @ CHR ''_'' # ts) = []" by (rule name_suffix_nodot)
  then show ?thesis using assms by (simp add: name_suffix_nodot name_stem_nodot)
qed

lemma renamed_suffix_split:
  assumes post: "CHR ''.'' \<notin> set post" and ts: "CHR ''.'' \<notin> set ts"
  shows "name_suffix (name_stem (pre @ CHR ''.'' # post) @ CHR ''_'' # ts @
                      name_suffix (pre @ CHR ''.'' # post)) =
           (if pre \<noteq> [] \<and> post = [] then CHR ''.'' # CHR ''_'' # ts
            else name_suffix (pre @ CHR ''.'' # post))"
proof (cases "pre \<noteq> [] \<and> post \<noteq> []")
  case True
  have "name_suffix ((pre @ CHR ''_'' # ts) @ CHR ''.'' # post) = CHR ''.'' # post"
    using name_suffix_split[OF post, of "pre @ CHR ''_'' # ts"] True by simp
  then show ?thesis using True post
    by (simp add: name_suffix_split name_stem_split)
next
  case False
  note nf = False
  show ?thesis
  proof (cases "post = []")
    case True
    have "CHR ''.'' \<notin> set (CHR ''_'' # ts)" using ts by simp
    then have "name_suffix (pre @ CHR ''.'' # (CHR ''_'' # ts)) =
                 (if pre \<noteq> [] \<and> (CHR ''_'' # ts) \<noteq> [] then CHR ''.'' # (CHR ''_'' # ts) else [])"
      by (rule name_suffix_split)
    then show ?thesis using True post
      by (simp add: name_suffix_split name_stem_split name_suffix_dot name_stem_dot)
  next
    case False
    with nf have pre: "pre = []" by simp
    have "CHR ''.'' \<notin> set (post @ CHR ''_'' # ts)" using ts post by simp
    then have "name_suffix ([] @ CHR ''.'' # (post @ CHR ''_'' # ts)) = []"
      using name_suffix_split[of "post @ CHR ''_'' # ts" "[]"] by simp
    then show ?thesis using pre post False
      using name_suffix_split[of post "[]"] name_stem_split[of post "[]"]
      by simp
  qed
qed

lemma last_dot_split:
  assumes "CHR ''.'' \<notin> set post"
  shows "(last (pre @ CHR ''.'' # post) = CHR ''.'') = (post = [])"
proof (cases "post = []")
  case True then show ?thesis by simp
next
  case False
  then have l: "last (pre @ CHR ''.'' # post) = last post" by simp
  have "last post \<in> set post" using False by (rule last_in_set)
  then have "last post \<noteq> CHR ''.''" using assms by metis
  then show ?thesis using l False by simp
qed

lemma renamed_suffix_same:
  assumes ts: "CHR ''.'' \<notin> set ts" and nd: "n = [] \<or> last n \<noteq> CHR ''.''"
  shows "name_suffix (name_stem n @ CHR ''_'' # ts @ name_suffix n) = name_suffix n"
proof (cases "CHR ''.'' \<in> set n")
  case False
  then show ?thesis using renamed_suffix_nodot[OF False ts] by (simp add: name_suffix_nodot)
next
  case True
  from split_list_last[OF True]
  obtain pre post where n: "n = pre @ CHR ''.'' # post" and post: "CHR ''.'' \<notin> set post"
    by blast
  have "last (pre @ CHR ''.'' # post) \<noteq> CHR ''.''" using nd unfolding n by simp
  then have "post \<noteq> []" using last_dot_split[OF post, of pre] by simp
  then show ?thesis unfolding n using renamed_suffix_split[OF post ts, of pre] by simp
qed

lemma renamed_category:
  assumes ts: "CHR ''.'' \<notin> set ts"
  shows "get_category (name_suffix (name_stem n @ CHR ''_'' # ts @ name_suffix n)) =
         get_category (name_suffix n)"
proof (cases "CHR ''.'' \<in> set n")
  case False
  then show ?thesis using renamed_suffix_nodot[OF False ts] by (simp add: name_suffix_nodot)
next
  case True
  from split_list_last[OF True]
  obtain pre post where n: "n = pre @ CHR ''.'' # post" and post: "CHR ''.'' \<notin> set post"
    by blast
  show ?thesis
  proof (cases "pre \<noteq> [] \<and> post = []")
    case True
    then have "name_suffix n = []" unfolding n using name_suffix_split[OF post, of pre] by simp
    then show ?thesis unfolding n using renamed_suffix_split[OF post ts, of pre] True
      by (simp add: get_category_empty get_category_dot_underscore)
  next
    case False
    then have "name_suffix (name_stem (pre @ CHR ''.'' # post) @ CHR ''_'' # ts @
                 name_suffix (pre @ CHR ''.'' # post)) = name_suffix (pre @ CHR ''.'' # post)"
      using renamed_suffix_split[OF post ts, of pre] by auto
    then show ?thesis unfolding n by simp
  qed
qed

section \<open>Paths: basic facts\<close>

lemma split_on_absent: "sep \<notin> set s \<Longrightarrow> split_on sep s = [s]"
  by (induction s) (auto simp: Let_def)

lemma splitroot_relative: "CHR ''/'' \<notin> set s \<Longrightarrow> splitroot s = ([], s)"
  by (cases s) (auto simp: splitroot_def)

lemma Path_valid_name: "valid_name n \<Longrightarrow> Path n = PurePath [] [n]"
  by (simp add: Path_def valid_name_def splitroot_relative split_on_absent)

lemma joinpath_valid_name:
  "valid_name n \<Longrightarrow> joinpath p n = PurePath (root p) (parts p @ [n])"
  by (simp add: joinpath_def Path_valid_name)

lemma path_name_joinpath: "valid_name n \<Longrightarrow> path_name (joinpath p n) = n"
  by (simp add: joinpath_valid_name path_name_def)

lemma parent_joinpath: "valid_name n \<Longrightarrow> parent (joinpath p n) = PurePath (root p) (parts p)"
  by (simp add: joinpath_valid_name parent_def)

lemma get_category_cases:
  "get_category e \<in> {''documents'', ''images'', ''audio'', ''videos'', ''archives'', ''code'', ''misc''}"
  by (simp add: get_category_table)

lemma valid_name_category: "valid_name (get_category e)"
  using get_category_cases[of e] by (auto simp: valid_name_def)

lemma contains_underscore_valid:
  assumes "CHR ''_'' \<in> set x" and "CHR ''/'' \<notin> set x"
  shows "valid_name x"
proof -
  have "x \<noteq> []" using assms(1) by auto
  moreover have "x \<noteq> ''.''" using assms(1) by auto
  moreover have "x \<noteq> ''..''" using assms(1) by auto
  ultimately show ?thesis using assms(2) by (simp add: valid_name_def)
qed

lemma valid_name_renamed:
  assumes "valid_name n"
  shows "valid_name (name_stem n @ CHR ''_'' # strftime dt @ name_suffix n)"
proof -
  have "set (name_stem n @ name_suffix n) = set n" by (simp only: stem_suffix)
  then have sub: "set (name_stem n) \<union> set (name_suffix n) = set n" by simp
  have "CHR ''/'' \<notin> set n" using assms by (simp add: valid_name_def)
  then have "CHR ''/'' \<notin> set (name_stem n)" and "CHR ''/'' \<notin> set (name_suffix n)"
    using sub by auto
  then have "CHR ''/'' \<notin> set (name_stem n @ CHR ''_'' # strftime dt @ name_suffix n)"
    using strftime_no_slash[of dt] by simp
  moreover have "CHR ''_'' \<in> set (name_stem n @ CHR ''_'' # strftime dt @ name_suffix n)"
    by simp
  ultimately show ?thesis by (rule contains_underscore_valid[rotated])
qed

lemma path_name_initial_dest:
  "valid_name (path_name p) \<Longrightarrow> path_name (initial_dest self p) = path_name p"
  by (simp add: initial_dest_def path_name_joinpath)

lemma final_dest_collision:
  assumes "path_exists (fs w) (initial_dest self p)"
  shows "final_dest clock self w p =
           joinpath (joinpath (organized_dir self) (get_category (path_suffix p)))
             (path_stem (initial_dest self p) @ CHR ''_'' # strftime (clock (ticks w)) @
              path_suffix (initial_dest self p))"
  using assms by (simp add: final_dest_def Let_def)

lemma final_dest_free:
  "\<not> path_exists (fs w) (initial_dest self p) \<Longrightarrow> final_dest clock self w p = initial_dest self p"
  by (simp add: final_dest_def Let_def)

lemma path_name_final_dest:
  assumes "valid_name (path_name p)" and "path_exists (fs w) (initial_dest self p)"
  shows "path_name (final_dest clock self w p) =
           path_stem p @ CHR ''_'' # strftime (clock (ticks w)) @ path_suffix p"
proof -
  have n: "path_name (initial_dest self p) = path_name p"
    using assms(1) by (rule path_name_initial_dest)
  have v: "valid_name (name_stem (path_name p) @ CHR ''_'' # strftime (clock (ticks w)) @
                       name_suffix (path_name p))"
    using assms(1) by (rule valid_name_renamed)
  show ?thesis
    unfolding final_dest_collision[OF assms(2)] path_stem_def path_suffix_def n
    using v by (rule path_name_joinpath)
qed

section \<open>Path resolution: basic facts\<close>

lemma collapse_snoc:
  "collapse (ps @ [x]) = (if x = ''..'' then butlast (collapse ps) else collapse ps @ [x])"
  by (simp add: collapse_def)

lemma collapse_no_dotdot: "''..'' \<notin> set (collapse ps)"
proof (induction ps rule: rev_induct)
  case Nil
  then show ?case by (simp add: collapse_def)
next
  case (snoc x xs)
  then show ?case unfolding collapse_snoc by (auto dest: in_set_butlastD)
qed

lemma collapse_plain: "''..'' \<notin> set ps \<Longrightarrow> collapse ps = ps"
proof (induction ps rule: rev_induct)
  case Nil
  then show ?case by (simp add: collapse_def)
next
  case (snoc x xs)
  then show ?case by (auto simp: collapse_snoc)
qed

lemma unresolved_snoc:
  "x \<noteq> ''..'' \<Longrightarrow> unresolved f p acc (xs @ [x]) = unresolved f p acc xs"
  by (induction xs arbitrary: acc) (auto split: option.splits node.splits)

lemma unresolved_plain: "''..'' \<notin> set xs \<Longrightarrow> unresolved f p acc xs = None"
  by (induction xs arbitrary: acc) auto

lemma unresolved_label:
  "(unresolved f p acc xs = None) = (unresolved f q acc xs = None)"
  by (induction xs arbitrary: acc) (auto split: option.splits node.splits)

lemma unresolved_mono:
  assumes "\<forall>k. map_of (entries f) k = Some Dir \<longrightarrow> map_of (entries f') k = Some Dir"
  shows "unresolved f p acc xs = None \<Longrightarrow> unresolved f' p acc xs = None"
proof (induction xs arbitrary: acc)
  case Nil
  then show ?case by simp
next
  case (Cons x xs)
  show ?case
  proof (cases "x = ''..'' \<and> acc \<noteq> []")
    case False
    then show ?thesis using Cons by auto
  next
    case True
    then have d: "map_of (entries f) (PurePath ''/'' acc) = Some Dir"
      and r: "unresolved f p (butlast acc) xs = None"
      using Cons.prems by (auto split: option.splits node.splits)
    from d assms have "map_of (entries f') (PurePath ''/'' acc) = Some Dir" by blast
    moreover have "unresolved f' p (butlast acc) xs = None" using r by (rule Cons.IH)
    ultimately show ?thesis using True by simp
  qed
qed


lemma base_cwd: "cwd f' = cwd f \<Longrightarrow> base f' p = base f p"
  by (simp add: base_def)

lemma key_cwd: "cwd f' = cwd f \<Longrightarrow> key f' p = key f p"
  by (simp add: key_def base_def)


lemma key_joinpath:
  assumes "valid_name n"
  shows "key f (joinpath p n) = PurePath ''/'' (parts (key f p) @ [n])"
proof -
  have n: "n \<noteq> ''..''" using assms by (simp add: valid_name_def)
  have "collapse ((base f p @ parts p) @ [n]) = collapse (base f p @ parts p) @ [n]"
    unfolding collapse_snoc using n by simp
  then show ?thesis by (simp add: joinpath_valid_name[OF assms] key_def base_def)
qed

lemma broken_joinpath:
  assumes "valid_name n"
  shows "(broken f (joinpath p n) = None) = (broken f p = None)"
proof -
  have n: "n \<noteq> ''..''" using assms by (simp add: valid_name_def)
  have "unresolved f (joinpath p n) [] ((base f p @ parts p) @ [n]) =
        unresolved f (joinpath p n) [] (base f p @ parts p)"
    using n by (rule unresolved_snoc)
  then have "(broken f (joinpath p n) = None) =
             (unresolved f (joinpath p n) [] (base f p @ parts p) = None)"
    by (simp add: broken_def joinpath_valid_name[OF assms] base_def)
  then show ?thesis using unresolved_label[of f "joinpath p n" "[]" "base f p @ parts p" p]
    by (simp add: broken_def)
qed

lemma key_key: "key f (key f p) = key f p"
  by (simp add: key_def base_def collapse_plain[OF collapse_no_dotdot])

lemma broken_key: "broken f (key f p) = None"
  by (simp add: broken_def key_def base_def unresolved_plain[OF collapse_no_dotdot])

lemma broken_mono:
  assumes "cwd f' = cwd f"
    and "\<forall>k. map_of (entries f) k = Some Dir \<longrightarrow> map_of (entries f') k = Some Dir"
    and "broken f p = None"
  shows "broken f' p = None"
  using unresolved_mono[OF assms(2), of p "[]" "base f p @ parts p"] assms(3)
  unfolding broken_def base_cwd[OF assms(1)] by simp


lemma lookup_Some:
  "lookup f p = Some n \<Longrightarrow> broken f p = None \<and> map_of (entries f) (key f p) = Some n"
  by (auto simp: lookup_def split: option.splits)


lemma lookup_key: "lookup f (key f p) = map_of (entries f) (key f p)"
  by (simp add: lookup_def broken_key key_key)

lemma lookup_mono:
  assumes "cwd f' = cwd f"
    and "\<forall>k n. map_of (entries f) k = Some n \<longrightarrow> map_of (entries f') k = Some n"
    and "lookup f p = Some n"
  shows "lookup f' p = Some n"
proof -
  from lookup_Some[OF assms(3)]
  have b: "broken f p = None" and m: "map_of (entries f) (key f p) = Some n" by simp_all
  have "broken f' p = None" using assms(1) _ b by (rule broken_mono) (use assms(2) in blast)
  moreover have "map_of (entries f') (key f' p) = Some n"
    using m assms(2) key_cwd[OF assms(1)] by simp
  ultimately show ?thesis by (simp add: lookup_def)
qed

lemma lookup_joinpath:
  assumes "valid_name n" and "broken f p = None"
  shows "lookup f (joinpath p n) = map_of (entries f) (PurePath ''/'' (parts (key f p) @ [n]))"
  using assms broken_joinpath[OF assms(1), of f p]
  by (simp add: lookup_def key_joinpath)

section \<open>Directory creation: basic facts\<close>

lemma parent_error_None:
  "parent_error f p = None \<Longrightarrow>
   broken f p = None \<and> map_of (entries f) (parent (key f p)) = Some Dir"
  by (auto simp: parent_error_def split: option.splits node.splits)

lemma mkdir_result:
  "mkdir f p = Inr f' \<Longrightarrow>
   cwd f' = cwd f \<and> entries f' = entries f @ [(key f p, Dir)] \<and>
   map_of (entries f) (key f p) = None \<and> broken f p = None"
  by (auto simp: mkdir_def path_exists_def lookup_def dest!: parent_error_None
      split: if_splits option.splits)

lemma ensure_dir_cwd: "ensure_dir p f = Inr f' \<Longrightarrow> cwd f' = cwd f"
  by (auto simp: ensure_dir_def dest!: mkdir_result split: if_splits)

lemma ensure_dir_mono:
  assumes "ensure_dir p f = Inr f'" and "map_of (entries f) q = Some n"
  shows "map_of (entries f') q = Some n"
proof (cases "path_exists f p")
  case True
  then show ?thesis using assms by (simp add: ensure_dir_def)
next
  case False
  then have "mkdir f p = Inr f'" using assms(1) by (simp add: ensure_dir_def)
  then have "entries f' = entries f @ [(key f p, Dir)]" using mkdir_result by blast
  then show ?thesis using assms(2) by (simp add: map_add_Some_iff)
qed

lemma ensure_dir_exists: "ensure_dir p f = Inr f' \<Longrightarrow> path_exists f' p"
proof (cases "path_exists f p")
  case True
  assume "ensure_dir p f = Inr f'"
  then show ?thesis using True by (simp add: ensure_dir_def)
next
  case False
  assume "ensure_dir p f = Inr f'"
  then have m: "mkdir f p = Inr f'" using False by (simp add: ensure_dir_def)
  from mkdir_result[OF m]
  have c: "cwd f' = cwd f" and e: "entries f' = entries f @ [(key f p, Dir)]"
    and n: "map_of (entries f) (key f p) = None" and b: "broken f p = None"
    by simp_all
  have "\<forall>k. map_of (entries f) k = Some Dir \<longrightarrow> map_of (entries f') k = Some Dir"
    unfolding e by (simp add: map_add_Some_iff)
  with c have "broken f' p = None" using b by (rule broken_mono)
  moreover have "map_of (entries f') (key f' p) = Some Dir"
    unfolding key_cwd[OF c] e using n by (simp add: map_add_def)
  ultimately show ?thesis by (simp add: path_exists_def lookup_def)
qed

lemma ensure_dir_distinct:
  "ensure_dir p f = Inr f' \<Longrightarrow> distinct (map fst (entries f)) \<Longrightarrow>
   distinct (map fst (entries f'))"
  by (auto simp: ensure_dir_def map_of_eq_None_iff dest!: mkdir_result split: if_splits)

lemma ensure_dir_keys:
  "ensure_dir p f = Inr f' \<Longrightarrow>
   set (map fst (entries f')) \<subseteq> insert (key f p) (set (map fst (entries f)))"
  by (auto simp: ensure_dir_def dest!: mkdir_result split: if_splits)

lemma ensure_dir_nodes:
  "ensure_dir p f = Inr f' \<Longrightarrow> map_of (entries f') q = Some n \<Longrightarrow>
   map_of (entries f) q = Some n \<or> n = Dir"
  by (auto simp: ensure_dir_def map_add_Some_iff dest!: mkdir_result split: if_splits)

lemma ensure_dirs_cwd: "ensure_dirs ps f = (f', r) \<Longrightarrow> cwd f' = cwd f"
proof (induction ps arbitrary: f)
  case Nil
  then show ?case by simp
next
  case (Cons p ps)
  show ?case
  proof (cases "ensure_dir p f")
    case (Inl e)
    then show ?thesis using Cons.prems by simp
  next
    case (Inr f1)
    then have "ensure_dirs ps f1 = (f', r)" using Cons.prems(1) by simp
    then have "cwd f' = cwd f1" by (rule Cons.IH)
    then show ?thesis using ensure_dir_cwd[OF Inr] by simp
  qed
qed

lemma ensure_dirs_mono:
  "ensure_dirs ps f = (f', r) \<Longrightarrow> map_of (entries f) q = Some n \<Longrightarrow>
   map_of (entries f') q = Some n"
proof (induction ps arbitrary: f)
  case Nil
  then show ?case by simp
next
  case (Cons p ps)
  show ?case
  proof (cases "ensure_dir p f")
    case (Inl e)
    then show ?thesis using Cons.prems by simp
  next
    case (Inr f1)
    then have "ensure_dirs ps f1 = (f', r)" using Cons.prems(1) by simp
    moreover have "map_of (entries f1) q = Some n" using Inr Cons.prems(2) by (rule ensure_dir_mono)
    ultimately show ?thesis by (rule Cons.IH)
  qed
qed

lemma ensure_dirs_nodes:
  "ensure_dirs ps f = (f', r) \<Longrightarrow> map_of (entries f') q = Some n \<Longrightarrow>
   map_of (entries f) q = Some n \<or> n = Dir"
proof (induction ps arbitrary: f)
  case Nil
  then show ?case by simp
next
  case (Cons p ps)
  show ?case
  proof (cases "ensure_dir p f")
    case (Inl e)
    then show ?thesis using Cons.prems by simp
  next
    case (Inr f1)
    then have "ensure_dirs ps f1 = (f', r)" using Cons.prems(1) by simp
    then have "map_of (entries f1) q = Some n \<or> n = Dir" using Cons.prems(2) by (rule Cons.IH)
    then show ?thesis using ensure_dir_nodes[OF Inr] by blast
  qed
qed

lemma ensure_dirs_lookup:
  assumes "ensure_dirs ps f = (f', r)" and "lookup f q = Some n"
  shows "lookup f' q = Some n"
proof -
  have "cwd f' = cwd f" using assms(1) by (rule ensure_dirs_cwd)
  moreover have "\<forall>k n. map_of (entries f) k = Some n \<longrightarrow> map_of (entries f') k = Some n"
    using assms(1) ensure_dirs_mono by blast
  ultimately show ?thesis using assms(2) by (rule lookup_mono)
qed

lemma ensure_dirs_distinct:
  "ensure_dirs ps f = (f', r) \<Longrightarrow> distinct (map fst (entries f)) \<Longrightarrow>
   distinct (map fst (entries f'))"
proof (induction ps arbitrary: f)
  case Nil
  then show ?case by simp
next
  case (Cons p ps)
  show ?case
  proof (cases "ensure_dir p f")
    case (Inl e)
    then show ?thesis using Cons.prems by simp
  next
    case (Inr f1)
    then have "ensure_dirs ps f1 = (f', r)" using Cons.prems(1) by simp
    moreover have "distinct (map fst (entries f1))"
      using Inr Cons.prems(2) by (rule ensure_dir_distinct)
    ultimately show ?thesis by (rule Cons.IH)
  qed
qed

lemma ensure_dirs_idem: "ensure_dirs ps f = (f', r) \<Longrightarrow> ensure_dirs ps f' = (f', r)"
proof (induction ps arbitrary: f)
  case Nil
  then show ?case by simp
next
  case (Cons p ps)
  show ?case
  proof (cases "ensure_dir p f")
    case (Inl e)
    then show ?thesis using Cons.prems by auto
  next
    case (Inr f1)
    then have run: "ensure_dirs ps f1 = (f', r)" using Cons.prems by simp
    have "path_exists f1 p" using Inr by (rule ensure_dir_exists)
    then obtain n where "lookup f1 p = Some n" by (auto simp: path_exists_def)
    with run have "lookup f' p = Some n" by (rule ensure_dirs_lookup)
    then have "ensure_dir p f' = Inr f'" by (simp add: ensure_dir_def path_exists_def)
    moreover have "ensure_dirs ps f' = (f', r)" using run by (rule Cons.IH)
    ultimately show ?thesis by simp
  qed
qed

lemma ensure_dirs_all_exist:
  "ensure_dirs ps f = (f', Inr u) \<Longrightarrow> p \<in> set ps \<Longrightarrow> path_exists f' p"
proof (induction ps arbitrary: f)
  case Nil
  then show ?case by simp
next
  case (Cons a ps)
  show ?case
  proof (cases "ensure_dir a f")
    case (Inl e)
    then show ?thesis using Cons.prems by simp
  next
    case (Inr f1)
    then have run: "ensure_dirs ps f1 = (f', Inr u)" using Cons.prems by simp
    show ?thesis
    proof (cases "p = a")
      case True
      have "path_exists f1 a" using Inr by (rule ensure_dir_exists)
      then obtain n where "lookup f1 a = Some n" by (auto simp: path_exists_def)
      with run have "lookup f' a = Some n" by (rule ensure_dirs_lookup)
      then show ?thesis using True by (simp add: path_exists_def)
    next
      case False
      then have "p \<in> set ps" using Cons.prems(2) by simp
      with run show ?thesis by (rule Cons.IH)
    qed
  qed
qed

lemma create_directories_fs:
  "create_directories self w = (w1, r) \<Longrightarrow> ensure_dirs (layout self) (fs w) = (fs w1, r)"
  by (auto simp: create_directories_def info_def split: prod.splits sum.splits)

lemma create_directories_lookup:
  "create_directories self w = (w1, r) \<Longrightarrow> lookup (fs w) q = Some n \<Longrightarrow>
   lookup (fs w1) q = Some n"
  using create_directories_fs ensure_dirs_lookup by blast


section \<open>The guard on the log file\<close>

lemma log_path_guard:
  "(joinpath sd ''file_organizer.log'' = Path ''file_organizer.log'') = (sd = PurePath [] [])"
proof -
  have v: "valid_name ''file_organizer.log''" by (simp add: valid_name_def)
  show ?thesis
    unfolding joinpath_valid_name[OF v] Path_valid_name[OF v] by (cases sd) auto
qed

section \<open>Listings and the report: basic facts\<close>


lemma is_child_joinpath: "valid_name n \<Longrightarrow> is_child d (joinpath d n)"
  by (simp add: joinpath_valid_name is_child_def)











lemma not_file_and_dir: "is_file f p \<Longrightarrow> \<not> is_dir f p"
  by (auto simp: is_file_def is_dir_def split: option.splits node.splits)








section \<open>The loop and the entry point: basic facts\<close>










section \<open>The timestamp format\<close>

lemma length_str_nat: "0 < k \<Longrightarrow> n < 10 ^ k \<Longrightarrow> length (str_nat n) \<le> k"
proof (induction k arbitrary: n)
  case 0
  then show ?case by simp
next
  case (Suc k)
  show ?case
  proof (cases "n < 10")
    case True
    then show ?thesis by (subst str_nat.simps) simp
  next
    case False
    then have k: "0 < k" using Suc.prems(2) by (cases k) auto
    have "n div 10 < 10 ^ k" using Suc.prems(2) by (simp add: less_mult_imp_div_less mult.commute)
    then have "length (str_nat (n div 10)) \<le> k" using k Suc.IH by blast
    then show ?thesis using False by (subst str_nat.simps) simp
  qed
qed

lemma length_zero_pad: "length s \<le> k \<Longrightarrow> length (zero_pad k s) = k"
  by (simp add: zero_pad_def)

lemma field2:
  assumes "n < 100"
  shows "length (zero_pad 2 (str_nat n)) = 2 \<and> list_all is_digit (zero_pad 2 (str_nat n))"
proof -
  have "n < 10 ^ 2" using assms by simp
  then have "length (str_nat n) \<le> 2" using length_str_nat[of 2 n] by simp
  then show ?thesis using length_zero_pad zero_pad_digits[OF str_nat_digits] by blast
qed

lemma field4:
  assumes "n < 10000"
  shows "length (zero_pad 4 (str_nat n)) = 4 \<and> list_all is_digit (zero_pad 4 (str_nat n))"
proof -
  have "n < 10 ^ 4" using assms by simp
  then have "length (str_nat n) \<le> 4" using length_str_nat[of 4 n] by simp
  then show ?thesis using length_zero_pad zero_pad_digits[OF str_nat_digits] by blast
qed

lemma timestamp_shape:
  assumes "length a = 4" "length b = 2" "length c = 2" "length d = 2" "length e = 2" "length g = 2"
    and "list_all is_digit a" "list_all is_digit b" "list_all is_digit c"
    and "list_all is_digit d" "list_all is_digit e" "list_all is_digit g"
  shows "is_timestamp (a @ b @ c @ ''_'' @ d @ e @ g)"
proof -
  have l: "length (a @ b @ c) = 8" using assms by simp
  have "a @ b @ c @ ''_'' @ d @ e @ g = (a @ b @ c) @ CHR ''_'' # (d @ e @ g)" by simp
  moreover have "is_timestamp ((a @ b @ c) @ CHR ''_'' # (d @ e @ g))"
    unfolding is_timestamp_def using l assms by (simp add: nth_append)
  ultimately show ?thesis by simp
qed

lemma strftime_is_timestamp:
  assumes "valid_datetime now"
  shows "is_timestamp (strftime now)"
proof -
  have y: "year now < 10000" and m: "month now < 100" and d: "day now < 100"
    and h: "hour now < 100" and mi: "minute now < 100" and s: "second now < 100"
    using assms by (simp_all add: valid_datetime_def)
  show ?thesis unfolding strftime_def
    using field4[OF y] field2[OF m] field2[OF d] field2[OF h] field2[OF mi] field2[OF s]
    by (intro timestamp_shape) simp_all
qed

section \<open>The constructor: basic facts\<close>





lemma organized_dir_init:
  "organized_dir (FileOrganizer_init dir) =
   joinpath (source_dir (FileOrganizer_init dir)) ''organized_files''"
  by (simp add: FileOrganizer_init_def)

section \<open>Properties of the program\<close>

subsection \<open>Classification\<close>

text \<open>
  C1. \<open>get_category\<close> returns the category of the first table entry, in the order
  documents, images, audio, videos, archives, code, whose extension list contains the
  lowercased input; for the table of the program this is the documented category of
  each extension. It returns \<open>'misc'\<close> when no entry matches, and
  \<open>get_category e = get_category (lower e)\<close> for every string \<open>e\<close>, \<open>lower\<close> being
  \<open>str.lower\<close>, under which the Kelvin sign counts as a \<open>k\<close>.
\<close>

theorem get_category_spec:
  "(\<forall>pre category extensions post.
      categories = pre @ (category, extensions) # post \<and> lower e \<in> set extensions \<and>
      (\<forall>(c, exts) \<in> set pre. lower e \<notin> set exts) \<longrightarrow> get_category e = category) \<and>
   map fst categories =
     [''documents'', ''images'', ''audio'', ''videos'', ''archives'', ''code''] \<and>
   get_category e =
     (if lower e \<in> {''.pdf'', ''.doc'', ''.docx'', ''.txt'', ''.rtf'', ''.odt''} then ''documents''
      else if lower e \<in> {''.jpg'', ''.jpeg'', ''.png'', ''.gif'', ''.bmp'', ''.svg''} then ''images''
      else if lower e \<in> {''.mp3'', ''.wav'', ''.flac'', ''.m4a''} then ''audio''
      else if lower e \<in> {''.mp4'', ''.avi'', ''.mkv'', ''.mov''} then ''videos''
      else if lower e \<in> {''.zip'', ''.rar'', ''.7z'', ''.tar'', ''.gz''} then ''archives''
      else if lower e \<in> {''.py'', ''.js'', ''.html'', ''.css'', ''.java'', ''.cpp''} then ''code''
      else ''misc'') \<and>
   ((\<forall>(c, exts) \<in> set categories. lower e \<notin> set exts) \<longrightarrow> get_category e = ''misc'') \<and>
   get_category e = get_category (lower e)"
proof -
  have first: "\<forall>pre category extensions post.
      categories = pre @ (category, extensions) # post \<and> lower e \<in> set extensions \<and>
      (\<forall>(c, exts) \<in> set pre. lower e \<notin> set exts) \<longrightarrow> get_category e = category"
    unfolding get_category_def using get_category_in_first by blast
  have names: "map fst categories =
     [''documents'', ''images'', ''audio'', ''videos'', ''archives'', ''code'']"
    by (simp add: categories_def)
  have none: "(\<forall>(c, exts) \<in> set categories. lower e \<notin> set exts) \<longrightarrow> get_category e = ''misc''"
    unfolding get_category_def using get_category_in_none by blast
  have low: "get_category e = get_category (lower e)"
    by (simp add: get_category_def get_category_in_lower)
  from first names get_category_table[of e] none low show ?thesis by blast
qed

theorem get_category_spec_witness:
  "get_category ''.JPG'' = ''images'' \<and> get_category ''.jpg'' = ''images'' \<and>
   get_category ''.unknown'' = ''misc'' \<and>
   get_category (''.m'' @ [CHR 0xE2, CHR 0x84, CHR 0xAA] @ ''v'') = ''videos''"
proof -
  have a: "categories =
      [(''documents'', [''.pdf'', ''.doc'', ''.docx'', ''.txt'', ''.rtf'', ''.odt''])] @
      (''images'', [''.jpg'', ''.jpeg'', ''.png'', ''.gif'', ''.bmp'', ''.svg'']) #
      drop 2 categories"
    by (simp add: categories_def)
  have l: "lower ''.JPG'' = ''.jpg''"
    by (simp add: lower_char_def)
  have b: "lower ''.JPG'' \<in> set [''.jpg'', ''.jpeg'', ''.png'', ''.gif'', ''.bmp'', ''.svg'']"
    unfolding l by simp
  have c: "\<forall>(c, exts) \<in> set [(''documents'', [''.pdf'', ''.doc'', ''.docx'', ''.txt'', ''.rtf'', ''.odt''])].
             lower ''.JPG'' \<notin> set exts"
    unfolding l by simp
  have u: "lower ''.unknown'' = ''.unknown''"
    by (simp add: lower_char_def)
  have d: "\<forall>(c, exts) \<in> set categories. lower ''.unknown'' \<notin> set exts"
    unfolding u by (simp add: categories_def)
  have k: "lower (''.m'' @ [CHR 0xE2, CHR 0x84, CHR 0xAA] @ ''v'') = ''.mkv''"
    by (simp add: lower_char_def)
  have m: "get_category ''.mkv'' = ''videos''"
    by (simp add: get_category_table lower_char_def)
  from get_category_spec[of "''.JPG''"] a b c have 1: "get_category ''.JPG'' = ''images''"
    by blast
  from get_category_spec[of "''.JPG''"] l 1 have 2: "get_category ''.jpg'' = ''images''"
    by simp
  from get_category_spec[of "''.unknown''"] d have 3: "get_category ''.unknown'' = ''misc''"
    by blast
  have "get_category (''.m'' @ [CHR 0xE2, CHR 0x84, CHR 0xAA] @ ''v'') =
        get_category (lower (''.m'' @ [CHR 0xE2, CHR 0x84, CHR 0xAA] @ ''v''))"
    using get_category_spec[of "''.m'' @ [CHR 0xE2, CHR 0x84, CHR 0xAA] @ ''v''"] by blast
  then have 4: "get_category (''.m'' @ [CHR 0xE2, CHR 0x84, CHR 0xAA] @ ''v'') = ''videos''"
    unfolding k m .
  from 1 2 3 4 show ?thesis by blast
qed

subsection \<open>The extension used for classification\<close>

text \<open>
  C5 (amended). The extension used for classification is \<open>path_suffix\<close>, the suffix of the
  final component. It is the substring from the last \<open>'.'\<close> onward, the dot included, when
  that dot is neither the first nor the last character of the name; for every other name
  (no dot, a last dot in front, a last dot at the end) it is the empty string, and the
  empty string classifies as \<open>'misc'\<close>.
\<close>

theorem suffix_for_classification:
  "path_suffix p = name_suffix (path_name p) \<and>
   (CHR ''.'' \<notin> set name \<longrightarrow> name_suffix name = []) \<and>
   (\<forall>pre post. name = pre @ CHR ''.'' # post \<and> CHR ''.'' \<notin> set post \<longrightarrow>
      spec_extension name = CHR ''.'' # post \<and>
      name_suffix name = (if pre \<noteq> [] \<and> post \<noteq> [] then spec_extension name else [])) \<and>
   get_category [] = ''misc''"
  by (simp add: path_suffix_def name_suffix_nodot name_suffix_split spec_extension_split
      get_category_empty)

theorem suffix_for_classification_witness:
  "name_suffix ''a.tar.gz'' = ''.gz'' \<and> name_suffix ''README'' = [] \<and>
   name_suffix ''.bashrc'' = []"
proof -
  have a: "''a.tar.gz'' = ''a.tar'' @ CHR ''.'' # ''gz'' \<and> CHR ''.'' \<notin> set ''gz''" by simp
  have b: "CHR ''.'' \<notin> set ''README''" by simp
  have c: "''.bashrc'' = [] @ CHR ''.'' # ''bashrc'' \<and> CHR ''.'' \<notin> set ''bashrc''" by simp
  have "''a.tar.gz'' = ''a.tar'' @ CHR ''.'' # ''gz'' \<and> CHR ''.'' \<notin> set ''gz'' \<longrightarrow>
        spec_extension ''a.tar.gz'' = CHR ''.'' # ''gz'' \<and>
        name_suffix ''a.tar.gz'' =
          (if ''a.tar'' \<noteq> [] \<and> ''gz'' \<noteq> [] then spec_extension ''a.tar.gz'' else [])"
    using suffix_for_classification[of "Path ''a.tar.gz''" "''a.tar.gz''"] by blast
  with a have 1: "name_suffix ''a.tar.gz'' = ''.gz''" by simp
  from suffix_for_classification[of "Path ''README''" "''README''"] b
  have 2: "name_suffix ''README'' = []" by blast
  have "''.bashrc'' = [] @ CHR ''.'' # ''bashrc'' \<and> CHR ''.'' \<notin> set ''bashrc'' \<longrightarrow>
        spec_extension ''.bashrc'' = CHR ''.'' # ''bashrc'' \<and>
        name_suffix ''.bashrc'' =
          (if ([]::string) \<noteq> [] \<and> ''bashrc'' \<noteq> [] then spec_extension ''.bashrc'' else [])"
    using suffix_for_classification[of "Path ''.bashrc''" "''.bashrc''"] by blast
  with c have 3: "name_suffix ''.bashrc'' = []" by simp
  from 1 2 3 show ?thesis by blast
qed

theorem suffix_for_classification_counterexample:
  "path_suffix (joinpath (Path ''downloads'') ''.py'') = [] \<and>
   spec_extension (path_name (joinpath (Path ''downloads'') ''.py'')) = ''.py'' \<and>
   get_category (path_suffix (joinpath (Path ''downloads'') ''.py'')) = ''misc'' \<and>
   get_category (spec_extension (path_name (joinpath (Path ''downloads'') ''.py''))) = ''code''"
proof -
  have v: "valid_name ''.py''" by (simp add: valid_name_def)
  have n: "path_name (joinpath (Path ''downloads'') ''.py'') = ''.py''"
    using v by (rule path_name_joinpath)
  have s: "name_suffix ''.py'' = []" by (simp add: name_suffix_def)
  have e: "spec_extension ''.py'' = ''.py''" by (simp add: spec_extension_def)
  have c: "get_category ''.py'' = ''code''"
    by (simp add: get_category_table lower_char_def)
  show ?thesis by (simp add: path_suffix_def n s e c get_category_empty)
qed

subsection \<open>Renaming keeps the category\<close>

text \<open>
  C10 (amended). When the computed destination exists, the new name is stem, \<open>'_'\<close>,
  timestamp, extension, and the renamed file classifies to the same category as the
  original. Its suffix is the original suffix whenever the original name does not end in
  \<open>'.'\<close>.
\<close>

theorem renamed_keeps_category:
  assumes "valid_name (path_name file_path)"
    and "path_exists (fs w) (initial_dest self file_path)"
  shows "path_name (final_dest clock self w file_path) =
           path_stem file_path @ ''_'' @ strftime (clock (ticks w)) @ path_suffix file_path \<and>
         get_category (path_suffix (final_dest clock self w file_path)) =
           get_category (path_suffix file_path) \<and>
         (last (path_name file_path) \<noteq> CHR ''.'' \<longrightarrow>
            path_suffix (final_dest clock self w file_path) = path_suffix file_path)"
proof -
  have n: "path_name (final_dest clock self w file_path) =
      name_stem (path_name file_path) @ CHR ''_'' # strftime (clock (ticks w)) @
      name_suffix (path_name file_path)"
    using path_name_final_dest[OF assms] by (simp add: path_stem_def path_suffix_def)
  have nd: "CHR ''.'' \<notin> set (strftime (clock (ticks w)))" by (rule strftime_no_dot)
  have 1: "get_category (path_suffix (final_dest clock self w file_path)) =
           get_category (path_suffix file_path)"
    unfolding path_suffix_def n by (rule renamed_category[OF nd])
  have 2: "last (path_name file_path) \<noteq> CHR ''.'' \<longrightarrow>
            path_suffix (final_dest clock self w file_path) = path_suffix file_path"
    unfolding path_suffix_def n using renamed_suffix_same[OF nd] by blast
  from n 1 2 show ?thesis by (simp add: path_stem_def path_suffix_def)
qed

theorem renamed_keeps_category_witness:
  "path_name (final_dest example_clock (FileOrganizer_init ''dl'') collision_world
      (PurePath [] [''dl'', ''report.txt''])) = ''report_20261104_120000.txt'' \<and>
   get_category (path_suffix (final_dest example_clock (FileOrganizer_init ''dl'') collision_world
      (PurePath [] [''dl'', ''report.txt'']))) = ''documents'' \<and>
   path_suffix (final_dest example_clock (FileOrganizer_init ''dl'') collision_world
      (PurePath [] [''dl'', ''report.txt''])) = ''.txt''"
proof -
  have v: "valid_name (path_name (PurePath [] [''dl'', ''report.txt'']))"
    by (simp add: path_name_def valid_name_def)
  have c: "path_exists (fs collision_world)
             (initial_dest (FileOrganizer_init ''dl'') (PurePath [] [''dl'', ''report.txt'']))"
    by code_simp
  have e: "path_stem (PurePath [] [''dl'', ''report.txt'']) @ ''_'' @
           strftime (example_clock (ticks collision_world)) @
           path_suffix (PurePath [] [''dl'', ''report.txt'']) = ''report_20261104_120000.txt''"
    by code_simp
  have s: "path_suffix (PurePath [] [''dl'', ''report.txt'']) = ''.txt''"
    by code_simp
  have g: "get_category ''.txt'' = ''documents''"
    by code_simp
  have l: "last (path_name (PurePath [] [''dl'', ''report.txt''])) \<noteq> CHR ''.''"
    by code_simp
  from renamed_keeps_category[OF v c, of example_clock] e s g l show ?thesis by simp
qed

theorem renamed_keeps_category_counterexample:
  "path_exists (fs trailing_dot_world)
     (initial_dest (FileOrganizer_init ''dl'') (PurePath [] [''dl'', ''notes.''])) \<and>
   path_suffix (PurePath [] [''dl'', ''notes.'']) = [] \<and>
   path_name (final_dest example_clock (FileOrganizer_init ''dl'') trailing_dot_world
      (PurePath [] [''dl'', ''notes.''])) = ''notes._20261104_120000'' \<and>
   path_suffix (final_dest example_clock (FileOrganizer_init ''dl'') trailing_dot_world
      (PurePath [] [''dl'', ''notes.''])) = ''._20261104_120000''"
  by code_simp

subsection \<open>Creating the layout twice\<close>

text \<open>
  C7 (amended). Calling \<open>create_directories\<close> a second time leaves the file system exactly
  as the first call left it and returns what the first call returned: it raises nothing
  after a first call that raised nothing, and the layout then exists. No call removes or
  changes a node that was there before, every node a call adds is a directory, and no
  path is listed twice. When the first call raises, the second raises the same error, as
  it does for a root that does not exist.
\<close>

theorem create_directories_idempotent:
  assumes "create_directories self w = (w1, r1)"
    and "create_directories self w1 = (w2, r2)"
  shows "fs w2 = fs w1 \<and> r2 = r1 \<and>
         (r1 = Inr () \<longrightarrow> r2 = Inr () \<and> (\<forall>p \<in> set (layout self). path_exists (fs w1) p)) \<and>
         {p. is_dir (fs w2) p} = {p. is_dir (fs w1) p} \<and>
         (\<forall>q n. lookup (fs w) q = Some n \<longrightarrow>
                lookup (fs w1) q = Some n \<and> lookup (fs w2) q = Some n) \<and>
         (\<forall>k n. map_of (entries (fs w1)) k = Some n \<longrightarrow>
                map_of (entries (fs w)) k = Some n \<or> n = Dir) \<and>
         (distinct (map fst (entries (fs w))) \<longrightarrow> distinct (map fst (entries (fs w2))))"
proof -
  have e1: "ensure_dirs (layout self) (fs w) = (fs w1, r1)"
    using assms(1) by (rule create_directories_fs)
  have e2: "ensure_dirs (layout self) (fs w1) = (fs w2, r2)"
    using assms(2) by (rule create_directories_fs)
  have "ensure_dirs (layout self) (fs w1) = (fs w1, r1)" using e1 by (rule ensure_dirs_idem)
  with e2 have same: "fs w2 = fs w1" and res: "r2 = r1" by simp_all
  have ex: "r1 = Inr () \<longrightarrow> (\<forall>p \<in> set (layout self). path_exists (fs w1) p)"
    using e1 ensure_dirs_all_exist by blast
  have keep: "\<forall>q n. lookup (fs w) q = Some n \<longrightarrow>
                lookup (fs w1) q = Some n \<and> lookup (fs w2) q = Some n"
    using e1 ensure_dirs_lookup same by metis
  have added: "\<forall>k n. map_of (entries (fs w1)) k = Some n \<longrightarrow>
                map_of (entries (fs w)) k = Some n \<or> n = Dir"
    using e1 ensure_dirs_nodes by blast
  have dis: "distinct (map fst (entries (fs w))) \<longrightarrow> distinct (map fst (entries (fs w2)))"
    using e1 ensure_dirs_distinct same by metis
  from same res ex keep added dis show ?thesis by simp
qed

theorem create_directories_idempotent_witness:
  "fs (fst (create_directories (FileOrganizer_init ''dl'')
         (fst (create_directories (FileOrganizer_init ''dl'') scenario_world)))) =
   fs (fst (create_directories (FileOrganizer_init ''dl'') scenario_world)) \<and>
   snd (create_directories (FileOrganizer_init ''dl'') scenario_world) = Inr () \<and>
   snd (create_directories (FileOrganizer_init ''dl'')
         (fst (create_directories (FileOrganizer_init ''dl'') scenario_world))) = Inr () \<and>
   lookup (fs (fst (create_directories (FileOrganizer_init ''dl'') scenario_world)))
     (PurePath [] [''dl'', ''a.txt'']) = Some (File ''alpha'') \<and>
   path_exists (fs (fst (create_directories (FileOrganizer_init ''dl'') scenario_world)))
     (PurePath [] [''dl'', ''organized_files'', ''misc''])"
proof -
  let ?self = "FileOrganizer_init ''dl''"
  let ?c1 = "create_directories ?self scenario_world"
  let ?c2 = "create_directories ?self (fst ?c1)"
  have a: "create_directories ?self scenario_world = (fst ?c1, snd ?c1)" by simp
  have b: "create_directories ?self (fst ?c1) = (fst ?c2, snd ?c2)" by simp
  have r: "snd ?c1 = Inr ()" by code_simp
  have m: "lookup (fs scenario_world) (PurePath [] [''dl'', ''a.txt'']) = Some (File ''alpha'')"
    by code_simp
  have l: "PurePath [] [''dl'', ''organized_files'', ''misc''] \<in> set (layout ?self)"
    by code_simp
  from create_directories_idempotent[OF a b] r m l show ?thesis by auto
qed

theorem create_directories_idempotent_counterexample:
  "snd (create_directories (FileOrganizer_init ''nowhere'') scenario_world) =
     Inl (FileNotFoundError (PurePath [] [''nowhere'', ''organized_files''])) \<and>
   snd (create_directories (FileOrganizer_init ''nowhere'')
         (fst (create_directories (FileOrganizer_init ''nowhere'') scenario_world))) =
     Inl (FileNotFoundError (PurePath [] [''nowhere'', ''organized_files'']))"
  by code_simp

subsection \<open>The log file in the source directory\<close>

text \<open>
  C4 (the code departs from the claim). The guard compares the whole child path with
  \<open>Path('file_organizer.log')\<close>, so the file of that name is skipped only when the source
  directory is the current directory written as \<open>'.'\<close> or \<open>''\<close>. For the source directory
  \<open>'dl'\<close> the file of that name in it is counted and moved to \<open>misc\<close>. For the current
  directory written as \<open>'.'\<close> the log stays where it is and receives the messages of the
  run; for the current directory written as \<open>'/w'\<close> the tool counts and moves the log it
  is writing to.
\<close>

theorem log_file_not_excluded:
  "considered f (joinpath sd ''file_organizer.log'') =
     (is_file f (joinpath sd ''file_organizer.log'') \<and> sd \<noteq> PurePath [] []) \<and>
   snd (organize_run example_clock ''dl'' log_in_source_world) = Inr (2, 2) \<and>
   lookup (fs (fst (organize_run example_clock ''dl'' log_in_source_world)))
     (PurePath [] [''dl'', ''organized_files'', ''misc'', ''file_organizer.log'']) =
     Some (File ''log lines'') \<and>
   lookup (fs (fst (organize_run example_clock ''dl'' log_in_source_world)))
     (PurePath [] [''dl'', ''file_organizer.log'']) = None \<and>
   snd (organize_run example_clock ''.'' log_in_cwd_world) = Inr (1, 1) \<and>
   lookup (fs (fst (organize_run example_clock ''.'' log_in_cwd_world)))
     (PurePath [] [''file_organizer.log'']) = Some (OpenLog ''log lines'') \<and>
   logged (fst (organize_run example_clock ''.'' log_in_cwd_world)) =
     [''Directory structure created successfully'',
      ''Moved '' @ quoted ''a.txt'' @ '' to documents folder'',
      ''Organization complete. Processed 1 of 1 files''] \<and>
   snd (organize_run example_clock ''/w'' log_in_cwd_world) = Inr (2, 2) \<and>
   lookup (fs (fst (organize_run example_clock ''/w'' log_in_cwd_world)))
     (PurePath ''/'' [''w'', ''organized_files'', ''misc'', ''file_organizer.log'']) =
     Some (OpenLog ''log lines'') \<and>
   lookup (fs (fst (organize_run example_clock ''/w'' log_in_cwd_world)))
     (PurePath ''/'' [''w'', ''file_organizer.log'']) = None"
proof -
  have g: "considered f (joinpath sd ''file_organizer.log'') =
     (is_file f (joinpath sd ''file_organizer.log'') \<and> sd \<noteq> PurePath [] [])"
    by (simp add: considered_def log_path_guard)
  have a: "snd (organize_run example_clock ''dl'' log_in_source_world) = Inr (2, 2)"
    by code_simp
  have b: "lookup (fs (fst (organize_run example_clock ''dl'' log_in_source_world)))
     (PurePath [] [''dl'', ''organized_files'', ''misc'', ''file_organizer.log'']) =
     Some (File ''log lines'')"
    by code_simp
  have c: "lookup (fs (fst (organize_run example_clock ''dl'' log_in_source_world)))
     (PurePath [] [''dl'', ''file_organizer.log'']) = None"
    by code_simp
  have d: "snd (organize_run example_clock ''.'' log_in_cwd_world) = Inr (1, 1)"
    by code_simp
  have e: "lookup (fs (fst (organize_run example_clock ''.'' log_in_cwd_world)))
     (PurePath [] [''file_organizer.log'']) = Some (OpenLog ''log lines'')"
    by code_simp
  have l: "logged (fst (organize_run example_clock ''.'' log_in_cwd_world)) =
     [''Directory structure created successfully'',
      ''Moved '' @ quoted ''a.txt'' @ '' to documents folder'',
      ''Organization complete. Processed 1 of 1 files'']"
    by code_simp
  have h: "snd (organize_run example_clock ''/w'' log_in_cwd_world) = Inr (2, 2)"
    by code_simp
  have i: "lookup (fs (fst (organize_run example_clock ''/w'' log_in_cwd_world)))
     (PurePath ''/'' [''w'', ''organized_files'', ''misc'', ''file_organizer.log'']) =
     Some (OpenLog ''log lines'')"
    by code_simp
  have j: "lookup (fs (fst (organize_run example_clock ''/w'' log_in_cwd_world)))
     (PurePath ''/'' [''w'', ''file_organizer.log'']) = None"
    by code_simp
  from g a b c d e l h i j show ?thesis by blast
qed

subsection \<open>The counts in the report\<close>




subsection \<open>Errors\<close>



end
